theory Spec2Isabelle
  imports Main "HOL-Library.Word"
begin

unbundle bit_operations_syntax

section \<open>Bytes, Go integers and encoding/binary\<close>

text \<open>
  A Go \<open>[]byte\<close> is a list of 8-bit words. Go's \<open>int\<close> (64 bits on every target the
  build script compiles for) is modelled as \<open>int\<close>: the only arithmetic done on it is
  \<open>6 + len * 16\<close> and \<open>len + 8\<close> on slice lengths, which stay far below \<open>2^63\<close>.
  The conversions \<open>uint8(x)\<close>, \<open>uint16(x)\<close> and \<open>uint32(x)\<close> keep the low bits, which is
  \<open>word_of_int\<close>; arithmetic on \<open>uint32\<close> wraps, which is \<open>+\<close> on \<open>32 word\<close>.
\<close>

type_synonym byte = "8 word"

text \<open>\<open>binary.Write(buffer, binary.LittleEndian, v)\<close> for a \<open>uint16\<close> and a \<open>uint32\<close>:
  the bytes \<open>byte(v)\<close>, \<open>byte(v >> 8)\<close>, ... appended to the buffer. A write to a
  \<open>bytes.Buffer\<close> of a fixed-size value returns no error.\<close>

definition LittleEndian_Uint16 :: "16 word \<Rightarrow> byte list" where
  "LittleEndian_Uint16 v = [ucast v, ucast (drop_bit 8 v)]"

definition LittleEndian_Uint32 :: "32 word \<Rightarrow> byte list" where
  "LittleEndian_Uint32 v =
     [ucast v, ucast (drop_bit 8 v), ucast (drop_bit 16 v), ucast (drop_bit 24 v)]"

text \<open>\<open>binary.Write(buffer, binary.BigEndian, v)\<close> for a \<open>uint32\<close>.\<close>

definition BigEndian_Uint32 :: "32 word \<Rightarrow> byte list" where
  "BigEndian_Uint32 v =
     [ucast (drop_bit 24 v), ucast (drop_bit 16 v), ucast (drop_bit 8 v), ucast v]"

text \<open>What a call can end with besides \<open>nil\<close>: an \<open>error\<close> value handed back by the
  rasterizer or by \<open>os.WriteFile\<close>, or the run-time panic of a slice index out of range.\<close>

datatype 'e failure = Err 'e | IndexPanic

section \<open>internal/ico\<close>

definition IconSizes :: "int list" where
  "IconSizes = [16, 24, 32, 48, 64, 128, 256]"

record ICONDIREntry =
  Width :: "8 word"
  Height :: "8 word"
  ColorCount :: "8 word"
  Reserved :: "8 word"
  Planes :: "16 word"
  BitCount :: "16 word"
  BytesInRes :: "32 word"
  ImageOffset :: "32 word"

text \<open>The first loop of \<open>CreateIco\<close>: one call of \<open>png.SvgToPng\<close> per size, in order,
  returning at the first error. The rasterizer is the parameter \<open>SvgToPng\<close>; the value of
  the package variable \<open>IconSizes\<close> is the list the loop ranges over.\<close>

fun ico_imageData ::
  "(string \<Rightarrow> int \<Rightarrow> 'e + byte list) \<Rightarrow> string \<Rightarrow> int list \<Rightarrow> byte list list
     \<Rightarrow> 'e + byte list list" where
  "ico_imageData SvgToPng svgPath [] imageData = Inr imageData"
| "ico_imageData SvgToPng svgPath (currentSize # rest) imageData =
     (case SvgToPng svgPath currentSize of
        Inl err \<Rightarrow> Inl err
      | Inr pngData \<Rightarrow> ico_imageData SvgToPng svgPath rest (imageData @ [pngData]))"

text \<open>The second loop: \<open>for i, currentSize := range IconSizes\<close>, reading \<open>imageData[i]\<close>
  and carrying \<open>entries\<close> and \<open>currentOffset\<close>.\<close>

fun ico_entries ::
  "int list \<Rightarrow> nat \<Rightarrow> byte list list \<Rightarrow> ICONDIREntry list \<Rightarrow> 32 word
     \<Rightarrow> 'e failure + ICONDIREntry list" where
  "ico_entries [] i imageData entries currentOffset = Inr entries"
| "ico_entries (currentSize # rest) i imageData entries currentOffset =
     (if i < length imageData then
        let width = (if currentSize = 256 then 0 else word_of_int currentSize);
            height = (if currentSize = 256 then 0 else word_of_int currentSize);
            entry = \<lparr> Width = width, Height = height, ColorCount = 0, Reserved = 0,
                      Planes = 1, BitCount = 32,
                      BytesInRes = word_of_nat (length (imageData ! i)),
                      ImageOffset = currentOffset \<rparr>
        in ico_entries rest (Suc i) imageData (entries @ [entry])
             (currentOffset + word_of_nat (length (imageData ! i)))
      else Inl IndexPanic)"

text \<open>The eight \<open>binary.Write\<close> calls for one directory entry.\<close>

definition write_ICONDIREntry :: "byte list \<Rightarrow> ICONDIREntry \<Rightarrow> byte list" where
  "write_ICONDIREntry buffer currentEntry =
     buffer @ [Width currentEntry] @ [Height currentEntry] @ [ColorCount currentEntry]
       @ [Reserved currentEntry]
       @ LittleEndian_Uint16 (Planes currentEntry)
       @ LittleEndian_Uint16 (BitCount currentEntry)
       @ LittleEndian_Uint32 (BytesInRes currentEntry)
       @ LittleEndian_Uint32 (ImageOffset currentEntry)"

text \<open>Lines 41 to 80 of \<open>CreateIco\<close>: the rasterized images and the directory entries
  computed for them.\<close>

definition CreateIco_layout ::
  "(string \<Rightarrow> int \<Rightarrow> 'e + byte list) \<Rightarrow> int list \<Rightarrow> string
     \<Rightarrow> 'e failure + byte list list \<times> ICONDIREntry list" where
  "CreateIco_layout SvgToPng sizes svgPath =
     (case ico_imageData SvgToPng svgPath sizes [] of
        Inl err \<Rightarrow> Inl (Err err)
      | Inr imageData \<Rightarrow>
          let headerSize = (6 :: int);
              entriesSize = int (length sizes) * 16;
              currentOffset = word_of_int (headerSize + entriesSize)
          in (case ico_entries sizes 0 imageData [] currentOffset of
                Inl f \<Rightarrow> Inl f
              | Inr entries \<Rightarrow> Inr (imageData, entries)))"

text \<open>Lines 82 to 105: the header, the directory entries, then the image data, all
  appended to one buffer. \<open>count\<close> is \<open>len(IconSizes)\<close>.\<close>

definition ico_serialize :: "nat \<Rightarrow> ICONDIREntry list \<Rightarrow> byte list list \<Rightarrow> byte list" where
  "ico_serialize count entries imageData =
     (let buffer = [];
          buffer = buffer @ LittleEndian_Uint16 0;
          buffer = buffer @ LittleEndian_Uint16 1;
          buffer = buffer @ LittleEndian_Uint16 (word_of_nat count);
          buffer = foldl write_ICONDIREntry buffer entries;
          buffer = foldl (\<lambda>b currentPng. b @ currentPng) buffer imageData
      in buffer)"

text \<open>The bytes \<open>CreateIco\<close> hands to \<open>os.WriteFile\<close>, or the failure that ends it
  before.\<close>

definition CreateIco_buffer ::
  "(string \<Rightarrow> int \<Rightarrow> 'e + byte list) \<Rightarrow> int list \<Rightarrow> string \<Rightarrow> 'e failure + byte list" where
  "CreateIco_buffer SvgToPng sizes svgPath =
     (case CreateIco_layout SvgToPng sizes svgPath of
        Inl f \<Rightarrow> Inl f
      | Inr (imageData, entries) \<Rightarrow> Inr (ico_serialize (length sizes) entries imageData))"

text \<open>\<open>CreateIco\<close> itself. \<open>os.WriteFile\<close> is the parameter \<open>WriteFile\<close>, acting on a
  file-system state; the result is the returned \<open>error\<close> (\<open>None\<close> for \<open>nil\<close>) and the
  file system afterwards.\<close>

definition CreateIco ::
  "(string \<Rightarrow> int \<Rightarrow> 'e + byte list) \<Rightarrow> (string \<Rightarrow> byte list \<Rightarrow> 'fs \<Rightarrow> 'e option \<times> 'fs)
     \<Rightarrow> int list \<Rightarrow> string \<Rightarrow> string \<Rightarrow> 'fs \<Rightarrow> 'e failure option \<times> 'fs" where
  "CreateIco SvgToPng WriteFile sizes svgPath outputPath fs =
     (case CreateIco_buffer SvgToPng sizes svgPath of
        Inl f \<Rightarrow> (Some f, fs)
      | Inr buffer \<Rightarrow>
          (case WriteFile outputPath buffer fs of
             (Some err, fs') \<Rightarrow> (Some (Err err), fs')
           | (None, fs') \<Rightarrow> (None, fs')))"

section \<open>internal/icns\<close>

record IconType =
  OSType :: string
  Size :: int
  IsRetina :: bool

record IconEntry =
  OSType :: "byte list"
  Length :: "32 word"
  Data :: "byte list"

definition StandardIconTypes :: "IconType list" where
  "StandardIconTypes =
     [\<lparr> IconType.OSType = ''icp4'', Size = 16, IsRetina = False \<rparr>,
      \<lparr> IconType.OSType = ''icp5'', Size = 32, IsRetina = False \<rparr>,
      \<lparr> IconType.OSType = ''icp6'', Size = 64, IsRetina = False \<rparr>,
      \<lparr> IconType.OSType = ''ic07'', Size = 128, IsRetina = False \<rparr>,
      \<lparr> IconType.OSType = ''ic08'', Size = 256, IsRetina = False \<rparr>,
      \<lparr> IconType.OSType = ''ic09'', Size = 512, IsRetina = False \<rparr>,
      \<lparr> IconType.OSType = ''ic10'', Size = 1024, IsRetina = False \<rparr>,
      \<lparr> IconType.OSType = ''ic11'', Size = 32, IsRetina = False \<rparr>,
      \<lparr> IconType.OSType = ''ic12'', Size = 64, IsRetina = False \<rparr>,
      \<lparr> IconType.OSType = ''ic13'', Size = 256, IsRetina = False \<rparr>,
      \<lparr> IconType.OSType = ''ic14'', Size = 512, IsRetina = False \<rparr>]"

text \<open>\<open>var osTypeBytes [4]byte; copy(osTypeBytes[:], iconType.OSType)\<close>: the first
  \<open>min 4 (len s)\<close> bytes of the string, the rest of the array staying zero.\<close>

definition copy_OSType :: "string \<Rightarrow> byte list" where
  "copy_OSType s = take 4 (map of_char s) @ replicate (4 - length s) 0"

text \<open>The loop of \<open>CreateIcns\<close> over the table: rasterize, build the entry, append; return
  at the first error.\<close>

fun icns_entries ::
  "(string \<Rightarrow> int \<Rightarrow> 'e + byte list) \<Rightarrow> string \<Rightarrow> IconType list \<Rightarrow> IconEntry list
     \<Rightarrow> 'e + IconEntry list" where
  "icns_entries SvgToPng svgPath [] entries = Inr entries"
| "icns_entries SvgToPng svgPath (iconType # rest) entries =
     (case SvgToPng svgPath (Size iconType) of
        Inl err \<Rightarrow> Inl err
      | Inr pngData \<Rightarrow>
          let osTypeBytes = copy_OSType (IconType.OSType iconType);
              entry = \<lparr> IconEntry.OSType = osTypeBytes,
                        Length = word_of_int (int (length pngData) + 8),
                        Data = pngData \<rparr>
          in icns_entries SvgToPng svgPath rest (entries @ [entry]))"

text \<open>\<open>totalSize := uint32(8); for _, entry := range entries { totalSize += entry.Length }\<close>\<close>

definition icns_totalSize :: "IconEntry list \<Rightarrow> 32 word" where
  "icns_totalSize entries = foldl (\<lambda>totalSize entry. totalSize + Length entry) 8 entries"

text \<open>Lines 85 to 103: the magic, the total size, then each entry's type code, length and
  data.\<close>

definition write_IconEntry :: "byte list \<Rightarrow> IconEntry \<Rightarrow> byte list" where
  "write_IconEntry buffer entry =
     buffer @ IconEntry.OSType entry @ BigEndian_Uint32 (Length entry) @ Data entry"

definition icns_serialize :: "32 word \<Rightarrow> IconEntry list \<Rightarrow> byte list" where
  "icns_serialize totalSize entries =
     (let buffer = [];
          buffer = buffer @ map of_char ''icns'';
          buffer = buffer @ BigEndian_Uint32 totalSize;
          buffer = foldl write_IconEntry buffer entries
      in buffer)"

definition CreateIcns_buffer ::
  "(string \<Rightarrow> int \<Rightarrow> 'e + byte list) \<Rightarrow> IconType list \<Rightarrow> string \<Rightarrow> 'e + byte list" where
  "CreateIcns_buffer SvgToPng types svgPath =
     (case icns_entries SvgToPng svgPath types [] of
        Inl err \<Rightarrow> Inl err
      | Inr entries \<Rightarrow> Inr (icns_serialize (icns_totalSize entries) entries))"

definition CreateIcns ::
  "(string \<Rightarrow> int \<Rightarrow> 'e + byte list) \<Rightarrow> (string \<Rightarrow> byte list \<Rightarrow> 'fs \<Rightarrow> 'e option \<times> 'fs)
     \<Rightarrow> IconType list \<Rightarrow> string \<Rightarrow> string \<Rightarrow> 'fs \<Rightarrow> 'e option \<times> 'fs" where
  "CreateIcns SvgToPng WriteFile types svgPath outputPath fs =
     (case CreateIcns_buffer SvgToPng types svgPath of
        Inl err \<Rightarrow> (Some err, fs)
      | Inr buffer \<Rightarrow> WriteFile outputPath buffer fs)"

section \<open>Auxiliary definitions for the proofs\<close>

text \<open>The directory entry the loop body of \<open>CreateIco\<close> builds for one size, one image
  and the running offset, and the list of entries the loop leaves behind.\<close>

definition ico_entry_for :: "int \<Rightarrow> byte list \<Rightarrow> 32 word \<Rightarrow> ICONDIREntry" where
  "ico_entry_for currentSize pngData currentOffset =
     \<lparr> Width = (if currentSize = 256 then 0 else word_of_int currentSize),
       Height = (if currentSize = 256 then 0 else word_of_int currentSize),
       ColorCount = 0, Reserved = 0, Planes = 1, BitCount = 32,
       BytesInRes = word_of_nat (length pngData), ImageOffset = currentOffset \<rparr>"

fun ico_directory :: "int list \<Rightarrow> byte list list \<Rightarrow> 32 word \<Rightarrow> ICONDIREntry list" where
  "ico_directory (s # ss) (p # ps) off =
     ico_entry_for s p off # ico_directory ss ps (off + word_of_nat (length p))"
| "ico_directory _ _ off = []"


text \<open>The entry the loop body of \<open>CreateIcns\<close> builds for one table row and one
  image.\<close>

definition icns_entry_for :: "IconType \<Rightarrow> byte list \<Rightarrow> IconEntry" where
  "icns_entry_for iconType pngData =
     \<lparr> IconEntry.OSType = copy_OSType (IconType.OSType iconType),
       Length = word_of_int (int (length pngData) + 8),
       Data = pngData \<rparr>"


text \<open>Reading a byte string as a number, least significant byte first and most
  significant byte first: what ``little-endian'' and ``big-endian'' mean for the fields.\<close>

fun LittleEndian_decode :: "byte list \<Rightarrow> nat" where
  "LittleEndian_decode [] = 0"
| "LittleEndian_decode (b # bs) = unat b + 256 * LittleEndian_decode bs"

definition BigEndian_decode :: "byte list \<Rightarrow> nat" where
  "BigEndian_decode bs = LittleEndian_decode (rev bs)"


text \<open>Concrete rasterizers and a concrete \<open>os.WriteFile\<close>, to run the encoders on:
  one that renders \<open>pxSize\<close> zero bytes, one that fails at one size and renders
  elsewhere, one whose every image is \<open>2^32\<close> bytes long, and a file system kept as a map
  from paths to contents.\<close>

definition stub_SvgToPng :: "string \<Rightarrow> int \<Rightarrow> string + byte list" where
  "stub_SvgToPng svgPath pxSize = Inr (replicate (nat pxSize) 0)"

definition failing_SvgToPng :: "int \<Rightarrow> string \<Rightarrow> int \<Rightarrow> string + byte list" where
  "failing_SvgToPng bad svgPath pxSize =
     (if pxSize = bad then Inl ''render failed'' else Inr (replicate (nat pxSize) 0))"

definition huge_png :: "byte list" where
  "huge_png = replicate 4294967296 0"

definition huge_SvgToPng :: "string \<Rightarrow> int \<Rightarrow> string + byte list" where
  "huge_SvgToPng svgPath pxSize = Inr huge_png"

definition mem_WriteFile ::
  "string \<Rightarrow> byte list \<Rightarrow> (string \<rightharpoonup> byte list) \<Rightarrow> string option \<times> (string \<rightharpoonup> byte list)" where
  "mem_WriteFile outputPath buffer fs = (None, fs(outputPath \<mapsto> buffer))"

section \<open>Readers of the two formats\<close>

text \<open>Modelled from the spec: the repository contains no reader of either format, and the
  round-trip property speaks of ``a conformant reader''. These readers follow the persisted
  file layout the spec gives. ICO: a 6-byte header (reserved 0, type 1, count, little-endian),
  then \<open>count\<close> entries of 16 bytes whose first two bytes are width and height, with 0
  standing for 256, and whose last two 4-byte little-endian fields are the byte length and
  the absolute offset of the image in the file. ICNS: the magic \<open>icns\<close>, the 4-byte big-endian
  total size, then entries of a 4-byte type code, a 4-byte big-endian length that counts its
  own 8 header bytes, and the payload, scanned one after the other.\<close>

definition read_dimension :: "byte \<Rightarrow> nat" where
  "read_dimension b = (if b = 0 then 256 else unat b)"

definition read_ico_entry :: "byte list \<Rightarrow> nat \<Rightarrow> (nat \<times> nat \<times> byte list) option" where
  "read_ico_entry file i =
     (let entry = take 16 (drop (6 + 16 * i) file);
          bytesInRes = LittleEndian_decode (take 4 (drop 8 entry));
          imageOffset = LittleEndian_decode (take 4 (drop 12 entry))
      in if length entry = 16 \<and> imageOffset + bytesInRes \<le> length file
         then Some (read_dimension (entry ! 0), read_dimension (entry ! 1),
                    take bytesInRes (drop imageOffset file))
         else None)"

definition read_ico :: "byte list \<Rightarrow> (nat \<times> nat \<times> byte list) list option" where
  "read_ico file =
     (if length file < 6 \<or> take 4 file \<noteq> [0, 0, 1, 0] then None
      else those (map (read_ico_entry file)
                   [0 ..< LittleEndian_decode (take 2 (drop 4 file))]))"

definition icns_entry_length :: "byte list \<Rightarrow> nat" where
  "icns_entry_length bs = BigEndian_decode (take 4 (drop 4 bs))"

function read_icns_entries :: "byte list \<Rightarrow> (byte list \<times> byte list) list option" where
  "read_icns_entries bs =
     (if bs = [] then Some []
      else if length bs < 8 \<or> icns_entry_length bs < 8 \<or> length bs < icns_entry_length bs
      then None
      else (case read_icns_entries (drop (icns_entry_length bs) bs) of
              None \<Rightarrow> None
            | Some rest \<Rightarrow>
                Some ((take 4 bs, take (icns_entry_length bs - 8) (drop 8 bs)) # rest)))"
  by pat_completeness auto
termination
  by (relation "measure length") auto

declare read_icns_entries.simps [simp del]

definition read_icns :: "byte list \<Rightarrow> (byte list \<times> byte list) list option" where
  "read_icns file =
     (if length file < 8 \<or> take 4 file \<noteq> map of_char ''icns''
         \<or> BigEndian_decode (take 4 (drop 4 file)) \<noteq> length file
      then None
      else read_icns_entries (drop 8 file))"

section \<open>The loops of the ICO encoder\<close>

lemma ico_imageData_ok:
  "map (SvgToPng svgPath) sizes = map Inr payloads \<Longrightarrow>
   ico_imageData SvgToPng svgPath sizes acc = Inr (acc @ payloads)"
proof (induction sizes arbitrary: acc payloads)
  case Nil
  then show ?case by simp
next
  case (Cons s sizes)
  then obtain p ps where ps: "payloads = p # ps" by (cases payloads) auto
  with Cons.prems have "SvgToPng svgPath s = Inr p" "map (SvgToPng svgPath) sizes = map Inr ps"
    by auto
  with Cons.IH [of ps "acc @ [p]"] ps show ?case by simp
qed

lemma ico_imageData_Inr:
  "ico_imageData SvgToPng svgPath sizes acc = Inr r \<Longrightarrow>
   \<exists>payloads. r = acc @ payloads \<and> map (SvgToPng svgPath) sizes = map Inr payloads"
proof (induction sizes arbitrary: acc)
  case Nil
  then show ?case by simp
next
  case (Cons s sizes)
  from Cons.prems obtain p where p: "SvgToPng svgPath s = Inr p"
    and r: "ico_imageData SvgToPng svgPath sizes (acc @ [p]) = Inr r"
    by (auto split: sum.splits)
  from Cons.IH [OF r] obtain ps where "r = (acc @ [p]) @ ps"
    "map (SvgToPng svgPath) sizes = map Inr ps" by blast
  with p have "r = acc @ (p # ps) \<and> map (SvgToPng svgPath) (s # sizes) = map Inr (p # ps)"
    by simp
  then show ?case by blast
qed

lemma ico_imageData_first_failure:
  "k < length sizes \<Longrightarrow> SvgToPng svgPath (sizes ! k) = Inl e \<Longrightarrow>
   (\<forall>j<k. \<exists>p. SvgToPng svgPath (sizes ! j) = Inr p) \<Longrightarrow>
   ico_imageData SvgToPng svgPath sizes acc = Inl e"
proof (induction sizes arbitrary: acc k)
  case Nil
  then show ?case by simp
next
  case (Cons s sizes)
  show ?case
  proof (cases k)
    case 0
    with Cons.prems show ?thesis by simp
  next
    case (Suc k')
    with Cons.prems obtain p where p: "SvgToPng svgPath s = Inr p" by fastforce
    have "\<forall>j<k'. \<exists>p. SvgToPng svgPath (sizes ! j) = Inr p"
      using Cons.prems(3) Suc by fastforce
    with Cons.IH [of k' "acc @ [p]"] Cons.prems(1,2) Suc p show ?thesis by simp
  qed
qed

lemma first_failing_index:
  "s \<in> set xs \<Longrightarrow> f s = Inl e0 \<Longrightarrow>
   \<exists>k e. k < length xs \<and> f (xs ! k) = Inl e \<and> (\<forall>j<k. \<exists>p. f (xs ! j) = Inr p)"
proof (induction xs)
  case Nil
  then show ?case by simp
next
  case (Cons x xs)
  show ?case
  proof (cases "f x")
    case (Inl e)
    then have "0 < length (x # xs) \<and> f ((x # xs) ! 0) = Inl e \<and> (\<forall>j<0. \<exists>p. f ((x # xs) ! j) = Inr p)"
      by simp
    then show ?thesis by blast
  next
    case (Inr p)
    with Cons.prems have "s \<in> set xs" by auto
    from Cons.IH [OF this Cons.prems(2)] obtain k e where k: "k < length xs" "f (xs ! k) = Inl e"
      "\<forall>j<k. \<exists>p. f (xs ! j) = Inr p" by blast
    have "\<forall>j<Suc k. \<exists>p. f ((x # xs) ! j) = Inr p"
    proof (intro allI impI)
      fix j assume "j < Suc k"
      then show "\<exists>p. f ((x # xs) ! j) = Inr p" using Inr k(3) by (cases j) auto
    qed
    with k have "Suc k < length (x # xs) \<and> f ((x # xs) ! Suc k) = Inl e \<and> (\<forall>j<Suc k. \<exists>p. f ((x # xs) ! j) = Inr p)"
      by simp
    then show ?thesis by blast
  qed
qed

lemma ico_entries_directory:
  "i + length sizes \<le> length imageData \<Longrightarrow>
   ico_entries sizes i imageData acc off = Inr (acc @ ico_directory sizes (drop i imageData) off)"
proof (induction sizes arbitrary: i acc off)
  case Nil
  then show ?case by simp
next
  case (Cons s sizes)
  then have i: "i < length imageData" by simp
  then have d: "drop i imageData = imageData ! i # drop (Suc i) imageData"
    by (simp add: Cons_nth_drop_Suc)
  from Cons.prems have "Suc i + length sizes \<le> length imageData" by simp
  from Cons.IH [OF this] i d show ?case
    by (simp add: ico_entry_for_def Let_def)
qed

lemma length_ico_directory:
  "length ss \<le> length ps \<Longrightarrow> length (ico_directory ss ps off) = length ss"
  by (induction ss ps off rule: ico_directory.induct) auto

lemma ico_directory_nth:
  "k < length ss \<Longrightarrow> length ss \<le> length ps \<Longrightarrow>
   ico_directory ss ps off ! k =
     ico_entry_for (ss ! k) (ps ! k) (off + word_of_nat (sum_list (map length (take k ps))))"
proof (induction ss ps off arbitrary: k rule: ico_directory.induct)
  case (1 s ss p ps off)
  then show ?case by (cases k) (auto simp: add.assoc)
qed auto

lemma foldl_write_ICONDIREntry:
  "foldl write_ICONDIREntry buffer entries = buffer @ concat (map (write_ICONDIREntry []) entries)"
  by (induction entries arbitrary: buffer) (auto simp: write_ICONDIREntry_def)

lemma foldl_append_concat: "foldl (\<lambda>b p. b @ p) buffer ps = buffer @ concat ps"
  by (induction ps arbitrary: buffer) auto

lemma length_write_ICONDIREntry: "length (write_ICONDIREntry [] e) = 16"
  by (simp add: write_ICONDIREntry_def LittleEndian_Uint16_def LittleEndian_Uint32_def)

lemma ico_serialize_eq:
  "ico_serialize count entries imageData =
     LittleEndian_Uint16 0 @ LittleEndian_Uint16 1 @ LittleEndian_Uint16 (word_of_nat count)
       @ concat (map (write_ICONDIREntry []) entries) @ concat imageData"
  by (simp add: ico_serialize_def foldl_write_ICONDIREntry foldl_append_concat)

lemma CreateIco_layout_ok:
  assumes "map (SvgToPng svgPath) sizes = map Inr payloads"
  shows "CreateIco_layout SvgToPng sizes svgPath =
     Inr (payloads, ico_directory sizes payloads (word_of_nat (6 + 16 * length sizes)))"
proof -
  have len: "length payloads = length sizes"
    using assms by (metis length_map)
  have "ico_imageData SvgToPng svgPath sizes [] = Inr payloads"
    using assms ico_imageData_ok [of SvgToPng svgPath sizes payloads "[]"] by simp
  then show ?thesis
    using len by (simp add: CreateIco_layout_def ico_entries_directory mult.commute)
qed

section \<open>Byte order\<close>

lemma unat_low_byte0: "unat (ucast w :: byte) = unat (w :: 'a::len word) mod 256"
  by (simp add: unsigned_ucast_eq take_bit_eq_mod)

lemma unat_low_byte: "unat (ucast (drop_bit n w) :: byte) = unat (w :: 'a::len word) div 2 ^ n mod 256"
  unfolding unat_low_byte0 unat_drop_bit_eq by (simp add: drop_bit_eq_div)

lemma unat_bytes_of_word:
  "unat (ucast (drop_bit 8 w) :: byte) = unat (w :: 'a::len word) div 256 mod 256"
  "unat (ucast (drop_bit 16 w) :: byte) = unat w div 65536 mod 256"
  "unat (ucast (drop_bit 24 w) :: byte) = unat w div 16777216 mod 256"
  using unat_low_byte [of 8 w] unat_low_byte [of 16 w] unat_low_byte [of 24 w] by simp_all

lemma bytes4:
  assumes "(n::nat) < 4294967296"
  shows "n mod 256 + 256 * (n div 256 mod 256 + 256 * (n div 65536 mod 256
           + 256 * (n div 16777216 mod 256 + 256 * 0))) = n"
proof -
  define m1 where "m1 = n div 256"
  define m2 where "m2 = m1 div 256"
  define m3 where "m3 = m2 div 256"
  define r0 where "r0 = n mod 256"
  define r1 where "r1 = m1 mod 256"
  define r2 where "r2 = m2 mod 256"
  have d2: "n div 65536 = m2" and d3: "n div 16777216 = m3"
    by (simp_all add: m1_def m2_def m3_def div_mult2_eq)
  have e0: "n = r0 + 256 * m1" by (simp add: r0_def m1_def)
  have e1: "m1 = r1 + 256 * m2" by (simp add: r1_def m2_def)
  have e2: "m2 = r2 + 256 * m3" by (simp add: r2_def m3_def)
  have "m3 < 256" using assms e0 e1 e2 by linarith
  then have e3: "m3 mod 256 = m3" by simp
  have "r0 + 256 * (r1 + 256 * (r2 + 256 * (m3 + 256 * 0))) = n"
    using e0 e1 e2 by simp
  then show ?thesis
    unfolding d2 d3 e3 r0_def [symmetric] r1_def [symmetric] r2_def [symmetric]
      m1_def [symmetric] .
qed

lemma bytes2:
  assumes "(n::nat) < 65536"
  shows "n mod 256 + 256 * (n div 256 mod 256 + 256 * 0) = n"
proof -
  have "n div 256 < 256" using assms by (simp add: less_mult_imp_div_less)
  then show ?thesis by simp
qed

lemma LittleEndian_decode_Uint32: "LittleEndian_decode (LittleEndian_Uint32 w) = unat w"
proof -
  have "unat w < 4294967296" using unsigned_less [of w] by simp
  from bytes4 [OF this] show ?thesis
    unfolding LittleEndian_Uint32_def LittleEndian_decode.simps unat_bytes_of_word
    unfolding unat_low_byte0 .
qed

lemma LittleEndian_decode_Uint16: "LittleEndian_decode (LittleEndian_Uint16 w) = unat w"
proof -
  have "unat w < 65536" using unsigned_less [of w] by simp
  from bytes2 [OF this] show ?thesis
    unfolding LittleEndian_Uint16_def LittleEndian_decode.simps unat_bytes_of_word
    unfolding unat_low_byte0 .
qed

lemma BigEndian_decode_Uint32: "BigEndian_decode (BigEndian_Uint32 w) = unat w"
proof -
  have "rev (BigEndian_Uint32 w) = LittleEndian_Uint32 w"
    by (simp add: BigEndian_Uint32_def LittleEndian_Uint32_def)
  then show ?thesis
    by (simp add: BigEndian_decode_def LittleEndian_decode_Uint32)
qed

section \<open>The loop of the ICNS encoder\<close>

lemma icns_entries_ok:
  "map (\<lambda>t. SvgToPng svgPath (Size t)) types = map Inr payloads \<Longrightarrow>
   icns_entries SvgToPng svgPath types acc = Inr (acc @ map2 icns_entry_for types payloads)"
proof (induction types arbitrary: acc payloads)
  case Nil
  then show ?case by simp
next
  case (Cons t types)
  then obtain p ps where ps: "payloads = p # ps" by (cases payloads) auto
  with Cons.prems have "SvgToPng svgPath (Size t) = Inr p"
    "map (\<lambda>t. SvgToPng svgPath (Size t)) types = map Inr ps"
    by auto
  with Cons.IH [of ps "acc @ [icns_entry_for t p]"] ps show ?case
    by (simp add: icns_entry_for_def)
qed

lemma icns_entries_Inr:
  "icns_entries SvgToPng svgPath types acc = Inr r \<Longrightarrow>
   \<exists>payloads. r = acc @ map2 icns_entry_for types payloads
      \<and> map (\<lambda>t. SvgToPng svgPath (Size t)) types = map Inr payloads"
proof (induction types arbitrary: acc)
  case Nil
  then show ?case by simp
next
  case (Cons t types)
  from Cons.prems obtain p where p: "SvgToPng svgPath (Size t) = Inr p"
    and r: "icns_entries SvgToPng svgPath types (acc @ [icns_entry_for t p]) = Inr r"
    by (auto simp: icns_entry_for_def split: sum.splits)
  from Cons.IH [OF r] obtain ps where "r = (acc @ [icns_entry_for t p]) @ map2 icns_entry_for types ps"
    "map (\<lambda>t. SvgToPng svgPath (Size t)) types = map Inr ps" by blast
  with p have "r = acc @ map2 icns_entry_for (t # types) (p # ps)
      \<and> map (\<lambda>t. SvgToPng svgPath (Size t)) (t # types) = map Inr (p # ps)"
    by simp
  then show ?case by blast
qed

lemma icns_entries_first_failure:
  "k < length types \<Longrightarrow> SvgToPng svgPath (Size (types ! k)) = Inl e \<Longrightarrow>
   (\<forall>j<k. \<exists>p. SvgToPng svgPath (Size (types ! j)) = Inr p) \<Longrightarrow>
   icns_entries SvgToPng svgPath types acc = Inl e"
proof (induction types arbitrary: acc k)
  case Nil
  then show ?case by simp
next
  case (Cons t types)
  show ?case
  proof (cases k)
    case 0
    with Cons.prems show ?thesis by simp
  next
    case (Suc k')
    with Cons.prems obtain p where p: "SvgToPng svgPath (Size t) = Inr p" by fastforce
    have "\<forall>j<k'. \<exists>p. SvgToPng svgPath (Size (types ! j)) = Inr p"
      using Cons.prems(3) Suc by fastforce
    with Cons.IH [of k' _] Cons.prems(1,2) Suc p show ?thesis by simp
  qed
qed

lemma foldl_totalSize:
  "foldl (\<lambda>totalSize entry. totalSize + Length entry) t entries = t + sum_list (map Length entries)"
  by (induction entries arbitrary: t) (auto simp: add.assoc)

lemma icns_totalSize_eq: "icns_totalSize entries = 8 + sum_list (map Length entries)"
  by (simp add: icns_totalSize_def foldl_totalSize)

lemma foldl_write_IconEntry:
  "foldl write_IconEntry buffer entries = buffer @ concat (map (write_IconEntry []) entries)"
  by (induction entries arbitrary: buffer) (auto simp: write_IconEntry_def)

lemma icns_serialize_eq:
  "icns_serialize totalSize entries =
     map of_char ''icns'' @ BigEndian_Uint32 totalSize @ concat (map (write_IconEntry []) entries)"
  by (simp add: icns_serialize_def foldl_write_IconEntry)

lemma length_BigEndian_Uint32: "length (BigEndian_Uint32 w) = 4"
  by (simp add: BigEndian_Uint32_def)

lemma length_LittleEndian_Uint32: "length (LittleEndian_Uint32 w) = 4"
  by (simp add: LittleEndian_Uint32_def)

lemma length_copy_OSType: "length (copy_OSType s) = 4"
  by (simp add: copy_OSType_def)

lemma copy_OSType_4: "length s = 4 \<Longrightarrow> copy_OSType s = map of_char s"
  by (simp add: copy_OSType_def)

lemma length_concat_icns:
  "length types = length payloads \<Longrightarrow>
   length (concat (map (write_IconEntry []) (map2 icns_entry_for types payloads)))
     = sum_list (map (\<lambda>p. length p + 8) payloads)"
proof (induction types arbitrary: payloads)
  case Nil
  then show ?case by simp
next
  case (Cons t types)
  then obtain p ps where "payloads = p # ps" by (cases payloads) auto
  with Cons show ?case
    by (simp add: write_IconEntry_def icns_entry_for_def length_BigEndian_Uint32 length_copy_OSType)
qed

lemma sum_Length_icns:
  "length types = length payloads \<Longrightarrow>
   sum_list (map Length (map2 icns_entry_for types payloads))
     = word_of_nat (sum_list (map (\<lambda>p. length p + 8) payloads))"
proof (induction types arbitrary: payloads)
  case Nil
  then show ?case by simp
next
  case (Cons t types)
  then obtain p ps where "payloads = p # ps" by (cases payloads) auto
  with Cons show ?case
    by (simp add: icns_entry_for_def)
qed

lemma CreateIcns_buffer_ok:
  assumes "map (\<lambda>t. SvgToPng svgPath (Size t)) types = map Inr payloads"
  shows "CreateIcns_buffer SvgToPng types svgPath =
     Inr (map of_char ''icns''
          @ BigEndian_Uint32 (word_of_nat (8 + sum_list (map (\<lambda>p. length p + 8) payloads)))
          @ concat (map (write_IconEntry []) (map2 icns_entry_for types payloads)))"
proof -
  define entries where "entries = map2 icns_entry_for types payloads"
  have len: "length types = length payloads"
    using assms by (metis length_map)
  have es: "icns_entries SvgToPng svgPath types [] = Inr entries"
    using assms icns_entries_ok [of SvgToPng svgPath types payloads "[]"]
    by (simp add: entries_def)
  have "icns_totalSize entries = 8 + word_of_nat (sum_list (map (\<lambda>p. length p + 8) payloads))"
    unfolding icns_totalSize_eq entries_def sum_Length_icns [OF len] ..
  then have tot: "icns_totalSize entries
      = word_of_nat (8 + sum_list (map (\<lambda>p. length p + 8) payloads))"
    by simp
  show ?thesis
    unfolding CreateIcns_buffer_def es sum.case icns_serialize_eq tot
    unfolding entries_def ..
qed

section \<open>Facts about the concrete rasterizers\<close>

lemma length_huge_png: "length huge_png = 4294967296"
  unfolding huge_png_def by (rule length_replicate)

lemma unat_word_of_nat_32: "unat (word_of_nat n :: 32 word) = n mod 2 ^ 32"
  by (simp add: unat_of_nat)

lemma stub_payloads:
  "map (stub_SvgToPng svgPath) IconSizes = map Inr (map (\<lambda>s. replicate (nat s) 0) IconSizes)"
  by (simp add: stub_SvgToPng_def)

lemma stub_icns_payloads:
  "map (\<lambda>t. stub_SvgToPng svgPath (Size t)) StandardIconTypes
     = map Inr (map (\<lambda>t. replicate (nat (Size t)) 0) StandardIconTypes)"
  by (simp add: stub_SvgToPng_def)

lemma huge_payloads:
  "map (huge_SvgToPng svgPath) sizes = map Inr (replicate (length sizes) huge_png)"
  by (induction sizes) (auto simp: huge_SvgToPng_def)

lemma huge_icns_payloads:
  "map (\<lambda>t. huge_SvgToPng svgPath (Size t)) types = map Inr (replicate (length types) huge_png)"
  by (induction types) (auto simp: huge_SvgToPng_def)

section \<open>Directory entries of a successful ICO run\<close>

lemma sum_list_take_le:
  "sum_list (map length (take k ps)) \<le> sum_list (map length (ps :: 'a list list))"
proof -
  have "sum_list (map length ps)
      = sum_list (map length (take k ps)) + sum_list (map length (drop k ps))"
    by (metis append_take_drop_id map_append sum_list_append)
  then show ?thesis by simp
qed

lemma sum_list_take_Suc:
  "k < length ps \<Longrightarrow> sum_list (map length (take (Suc k) ps))
      = sum_list (map length (take k ps)) + length (ps ! k)"
  by (simp add: take_Suc_conv_app_nth)

text \<open>The fields of the \<open>k\<close>-th entry of a successful run.\<close>

lemma CreateIco_layout_fields:
  assumes ok: "map (SvgToPng svgPath) sizes = map Inr payloads"
  shows "\<exists>entries. CreateIco_layout SvgToPng sizes svgPath = Inr (payloads, entries)
     \<and> length entries = length sizes
     \<and> (\<forall>k<length sizes. entries ! k = ico_entry_for (sizes ! k) (payloads ! k)
           (word_of_nat (6 + 16 * length sizes + sum_list (map length (take k payloads)))))"
proof -
  define entries where
    "entries = ico_directory sizes payloads (word_of_nat (6 + 16 * length sizes))"
  have len: "length sizes = length payloads"
    using ok by (metis length_map)
  have lay: "CreateIco_layout SvgToPng sizes svgPath = Inr (payloads, entries)"
    unfolding entries_def using ok by (rule CreateIco_layout_ok [of SvgToPng svgPath sizes payloads])
  have elen: "length entries = length sizes"
    using len by (simp add: entries_def length_ico_directory)
  have nth: "\<forall>k<length sizes. entries ! k = ico_entry_for (sizes ! k) (payloads ! k)
           (word_of_nat (6 + 16 * length sizes + sum_list (map length (take k payloads))))"
    using len by (simp add: entries_def ico_directory_nth)
  show ?thesis
    by (rule exI [of _ entries]) (intro conjI lay elen nth)
qed

section \<open>Properties of the encoders\<close>

text \<open>C7. With an empty size list \<open>CreateIco\<close> does not fail: the buffer it hands to
  \<open>os.WriteFile\<close> is the 6-byte header alone, with entry count 0, no directory entry and
  no payload, and the only error it can return is the one of the write itself.\<close>

theorem CreateIco_empty_size_list:
  "CreateIco_buffer SvgToPng [] svgPath = Inr [0, 0, 1, 0, 0, 0]
   \<and> CreateIco SvgToPng WriteFile [] svgPath outputPath fs =
       (map_option Err (fst (WriteFile outputPath [0, 0, 1, 0, 0, 0] fs)),
        snd (WriteFile outputPath [0, 0, 1, 0, 0, 0] fs))"
  by (simp add: CreateIco_def CreateIco_buffer_def CreateIco_layout_def ico_serialize_def
      LittleEndian_Uint16_def split: prod.splits option.splits)


text \<open>C1. When the rasterizer has produced the payloads in size-list order,
  the \<open>i\<close>-th directory entry of \<open>CreateIco\<close> has \<open>ImageOffset\<close> equal to
  \<open>6 + 16 * count +\<close> the sum of the lengths of payloads \<open>0..i-1\<close>, and \<open>BytesInRes\<close>
  equal to the length of payload \<open>i\<close>, both reduced modulo \<open>2^32\<close>, the fields being
  \<open>uint32\<close>; consecutive offsets satisfy \<open>offset[i+1] = offset[i] + length[i]\<close> in
  \<open>uint32\<close> arithmetic. Whenever the whole file is shorter than \<open>2^32\<close> bytes the
  equalities hold exactly, without reduction.\<close>

theorem CreateIco_entry_offsets:
  assumes ok: "map (SvgToPng svgPath) sizes = map Inr payloads" and i: "i < length sizes"
  shows "\<exists>entries. CreateIco_layout SvgToPng sizes svgPath = Inr (payloads, entries)
     \<and> length entries = length sizes
     \<and> unat (ImageOffset (entries ! i))
         = (6 + 16 * length sizes + sum_list (map length (take i payloads))) mod 2 ^ 32
     \<and> unat (BytesInRes (entries ! i)) = length (payloads ! i) mod 2 ^ 32
     \<and> (Suc i < length sizes \<longrightarrow>
          ImageOffset (entries ! Suc i) = ImageOffset (entries ! i) + BytesInRes (entries ! i))
     \<and> (6 + 16 * length sizes + sum_list (map length payloads) < 2 ^ 32 \<longrightarrow>
          unat (ImageOffset (entries ! i))
            = 6 + 16 * length sizes + sum_list (map length (take i payloads))
          \<and> unat (BytesInRes (entries ! i)) = length (payloads ! i)
          \<and> (Suc i < length sizes \<longrightarrow>
               unat (ImageOffset (entries ! Suc i))
                 = unat (ImageOffset (entries ! i)) + unat (BytesInRes (entries ! i))))"
proof -
  have len: "length sizes = length payloads"
    using ok by (metis length_map)
  from CreateIco_layout_fields [of SvgToPng svgPath sizes payloads, OF ok]
  obtain entries where lay: "CreateIco_layout SvgToPng sizes svgPath = Inr (payloads, entries)"
    and elen: "length entries = length sizes"
    and nth: "\<forall>k<length sizes. entries ! k = ico_entry_for (sizes ! k) (payloads ! k)
           (word_of_nat (6 + 16 * length sizes + sum_list (map length (take k payloads))))"
    by (elim exE conjE)
  have offk: "ImageOffset (entries ! k)
      = word_of_nat (6 + 16 * length sizes + sum_list (map length (take k payloads)))"
    if "k < length sizes" for k
    using nth that by (simp add: ico_entry_for_def)
  have lenk: "BytesInRes (entries ! k) = word_of_nat (length (payloads ! k))"
    if "k < length sizes" for k
    using nth that by (simp add: ico_entry_for_def)
  have takeS: "sum_list (map length (take (Suc i) payloads))
      = sum_list (map length (take i payloads)) + length (payloads ! i)"
    using i len by (simp add: sum_list_take_Suc)
  have c1: "unat (ImageOffset (entries ! i))
         = (6 + 16 * length sizes + sum_list (map length (take i payloads))) mod 2 ^ 32"
    unfolding offk [OF i] by (rule unat_word_of_nat_32)
  have c2: "unat (BytesInRes (entries ! i)) = length (payloads ! i) mod 2 ^ 32"
    unfolding lenk [OF i] by (rule unat_word_of_nat_32)
  have c3: "Suc i < length sizes \<longrightarrow>
      ImageOffset (entries ! Suc i) = ImageOffset (entries ! i) + BytesInRes (entries ! i)"
  proof
    assume s: "Suc i < length sizes"
    show "ImageOffset (entries ! Suc i) = ImageOffset (entries ! i) + BytesInRes (entries ! i)"
      unfolding offk [OF s] offk [OF i] lenk [OF i] takeS by (simp add: add.assoc)
  qed
  have c4: "6 + 16 * length sizes + sum_list (map length payloads) < 2 ^ 32 \<longrightarrow>
          unat (ImageOffset (entries ! i))
            = 6 + 16 * length sizes + sum_list (map length (take i payloads))
          \<and> unat (BytesInRes (entries ! i)) = length (payloads ! i)
          \<and> (Suc i < length sizes \<longrightarrow>
               unat (ImageOffset (entries ! Suc i))
                 = unat (ImageOffset (entries ! i)) + unat (BytesInRes (entries ! i)))"
  proof (intro impI)
    assume small: "6 + 16 * length sizes + sum_list (map length payloads) < 2 ^ 32"
    have a: "6 + 16 * length sizes + sum_list (map length (take k payloads)) < 2 ^ 32" for k
      using sum_list_take_le [of k payloads] small by linarith
    have b: "length (payloads ! i) < 2 ^ 32"
      using a [of "Suc i"] takeS by linarith
    have o: "unat (ImageOffset (entries ! k))
        = 6 + 16 * length sizes + sum_list (map length (take k payloads))"
      if "k < length sizes" for k
      unfolding offk [OF that] unat_word_of_nat_32 using a [of k] by (rule mod_less)
    have l: "unat (BytesInRes (entries ! i)) = length (payloads ! i)"
      unfolding c2 using b by (rule mod_less)
    have n: "Suc i < length sizes \<longrightarrow>
               unat (ImageOffset (entries ! Suc i))
                 = unat (ImageOffset (entries ! i)) + unat (BytesInRes (entries ! i))"
    proof
      assume s: "Suc i < length sizes"
      show "unat (ImageOffset (entries ! Suc i))
                 = unat (ImageOffset (entries ! i)) + unat (BytesInRes (entries ! i))"
        unfolding o [OF s] o [OF i] l takeS by simp
    qed
    show "unat (ImageOffset (entries ! i))
            = 6 + 16 * length sizes + sum_list (map length (take i payloads))
          \<and> unat (BytesInRes (entries ! i)) = length (payloads ! i)
          \<and> (Suc i < length sizes \<longrightarrow>
               unat (ImageOffset (entries ! Suc i))
                 = unat (ImageOffset (entries ! i)) + unat (BytesInRes (entries ! i)))"
      by (intro conjI o [OF i] l n)
  qed
  show ?thesis
    by (rule exI [of _ entries]) (intro conjI lay elen c1 c2 c3 c4)
qed

text \<open>The theorem at the default size list with images of 16, 24, 32, ... bytes: the third
  entry starts at \<open>6 + 112 + 16 + 24 = 158\<close>, is 32 bytes long, and the fourth starts at
  190.\<close>

theorem CreateIco_entry_offsets_witness:
  "\<exists>entries. CreateIco_layout stub_SvgToPng IconSizes ''icon.svg''
       = Inr (map (\<lambda>s. replicate (nat s) 0) IconSizes, entries)
     \<and> unat (ImageOffset (entries ! 2)) = 158
     \<and> unat (BytesInRes (entries ! 2)) = 32
     \<and> unat (ImageOffset (entries ! 3)) = 190"
proof -
  let ?ps = "map (\<lambda>s. replicate (nat s) (0::byte)) IconSizes"
  have i: "2 < length IconSizes" and s: "Suc 2 < length IconSizes"
    by (simp_all add: IconSizes_def)
  have small: "6 + 16 * length IconSizes + sum_list (map length ?ps) < 2 ^ 32"
    by (simp add: IconSizes_def)
  have o2: "6 + 16 * length IconSizes + sum_list (map length (take 2 ?ps)) = 158"
    and l2: "length (?ps ! 2) = 32"
    by (simp_all add: IconSizes_def)
  from CreateIco_entry_offsets [of stub_SvgToPng "''icon.svg''" IconSizes ?ps 2,
      OF stub_payloads i]
  obtain entries where lay: "CreateIco_layout stub_SvgToPng IconSizes ''icon.svg'' = Inr (?ps, entries)"
    and imp: "6 + 16 * length IconSizes + sum_list (map length ?ps) < 2 ^ 32 \<longrightarrow>
          unat (ImageOffset (entries ! 2))
            = 6 + 16 * length IconSizes + sum_list (map length (take 2 ?ps))
          \<and> unat (BytesInRes (entries ! 2)) = length (?ps ! 2)
          \<and> (Suc 2 < length IconSizes \<longrightarrow>
               unat (ImageOffset (entries ! Suc 2))
                 = unat (ImageOffset (entries ! 2)) + unat (BytesInRes (entries ! 2)))"
    by (elim exE conjE)
  from imp small s have a: "unat (ImageOffset (entries ! 2)) = 158"
    and b: "unat (BytesInRes (entries ! 2)) = 32"
    and c: "unat (ImageOffset (entries ! Suc 2))
                 = unat (ImageOffset (entries ! 2)) + unat (BytesInRes (entries ! 2))"
    unfolding o2 l2 by simp_all
  have d: "unat (ImageOffset (entries ! 3)) = 190"
    using a b c by (simp add: numeral_3_eq_3)
  show ?thesis
    by (rule exI [of _ entries]) (intro conjI lay a b d)
qed

text \<open>Without the reduction the statement fails: with images of \<open>2^32\<close> bytes every
  \<open>BytesInRes\<close> is 0 and every \<open>ImageOffset\<close> is 118.\<close>

theorem CreateIco_entry_offsets_counterexample:
  "\<not> isl (CreateIco_layout huge_SvgToPng IconSizes ''icon.svg'')
   \<and> map length (fst (projr (CreateIco_layout huge_SvgToPng IconSizes ''icon.svg'')))
       = [4294967296, 4294967296, 4294967296, 4294967296, 4294967296, 4294967296, 4294967296]
   \<and> map BytesInRes (snd (projr (CreateIco_layout huge_SvgToPng IconSizes ''icon.svg'')))
       = [0, 0, 0, 0, 0, 0, 0]
   \<and> map ImageOffset (snd (projr (CreateIco_layout huge_SvgToPng IconSizes ''icon.svg'')))
       = [118, 118, 118, 118, 118, 118, 118]"
proof -
  have n: "length IconSizes = 7" by (simp add: IconSizes_def)
  have r: "replicate 7 huge_png = [huge_png, huge_png, huge_png, huge_png, huge_png, huge_png, huge_png]"
    by (simp add: numeral_eq_Suc)
  have z: "(word_of_nat (length huge_png) :: 32 word) = 0"
    unfolding length_huge_png by simp
  have lay: "CreateIco_layout huge_SvgToPng IconSizes ''icon.svg''
      = Inr (replicate 7 huge_png, ico_directory IconSizes (replicate 7 huge_png) 118)"
    using CreateIco_layout_ok [of huge_SvgToPng "''icon.svg''" IconSizes "replicate 7 huge_png"]
      huge_payloads [of "''icon.svg''" IconSizes] n by simp
  show ?thesis
    unfolding lay r by (simp add: IconSizes_def ico_entry_for_def z length_huge_png)
qed

section \<open>Entry lengths and total size of the ICNS encoder\<close>

lemma word_of_nat_sum_unat:
  "(word_of_nat (sum_list (map (\<lambda>e. unat (f e)) es)) :: 32 word) = sum_list (map f es)"
  by (induction es) auto

lemma sum_list_nth_le:
  "i < length ps \<Longrightarrow> (g (ps ! i) :: nat) \<le> sum_list (map g ps)"
proof (induction ps arbitrary: i)
  case Nil
  then show ?case by simp
next
  case (Cons p ps)
  show ?case
  proof (cases i)
    case 0
    then show ?thesis by simp
  next
    case (Suc j)
    with Cons.prems have "j < length ps" by simp
    from Cons.IH [OF this] Suc show ?thesis by simp
  qed
qed

lemma map_Data_icns: "length types = length payloads \<Longrightarrow>
  map Data (map2 icns_entry_for types payloads) = payloads"
  by (induction types payloads rule: list_induct2) (auto simp: icns_entry_for_def)

lemma nth_icns_entries: "length types = length payloads \<Longrightarrow> i < length types \<Longrightarrow>
  map2 icns_entry_for types payloads ! i = icns_entry_for (types ! i) (payloads ! i)"
  by simp

text \<open>C2. When the rasterizer has produced the payloads in table order, every
  entry's \<open>Length\<close> field written by \<open>CreateIcns\<close> equals its payload's byte length plus 8,
  reduced modulo \<open>2^32\<close>, and the 4-byte total-size field of the header (bytes 4 to 7 of the
  buffer) equals 8 plus the sum of all entry length fields in \<open>uint32\<close> arithmetic, that is
  modulo \<open>2^32\<close>. Whenever 8 plus the sum of all (payload length + 8) is below \<open>2^32\<close>, both
  equalities hold exactly.\<close>

theorem CreateIcns_entry_lengths:
  assumes ok: "map (\<lambda>t. SvgToPng svgPath (Size t)) types = map Inr payloads"
  shows "\<exists>entries buffer. icns_entries SvgToPng svgPath types [] = Inr entries
     \<and> CreateIcns_buffer SvgToPng types svgPath = Inr buffer
     \<and> map Data entries = payloads
     \<and> take 4 (drop 4 buffer) = BigEndian_Uint32 (icns_totalSize entries)
     \<and> (\<forall>i<length types. unat (Length (entries ! i)) = (length (payloads ! i) + 8) mod 2 ^ 32)
     \<and> icns_totalSize entries = 8 + sum_list (map Length entries)
     \<and> unat (icns_totalSize entries)
          = (8 + sum_list (map (\<lambda>e. unat (Length e)) entries)) mod 2 ^ 32
     \<and> (8 + sum_list (map (\<lambda>p. length p + 8) payloads) < 2 ^ 32 \<longrightarrow>
          (\<forall>i<length types. unat (Length (entries ! i)) = length (payloads ! i) + 8)
          \<and> unat (icns_totalSize entries) = 8 + sum_list (map (\<lambda>e. unat (Length e)) entries))"
proof -
  define entries where "entries = map2 icns_entry_for types payloads"
  define buffer where "buffer = icns_serialize (icns_totalSize entries) entries"
  have len: "length types = length payloads"
    using ok by (metis length_map)
  have elen: "length entries = length types"
    using len by (simp add: entries_def)
  have es: "icns_entries SvgToPng svgPath types [] = Inr entries"
    using ok icns_entries_ok [of SvgToPng svgPath types payloads "[]"]
    by (simp add: entries_def)
  have buf: "CreateIcns_buffer SvgToPng types svgPath = Inr buffer"
    unfolding CreateIcns_buffer_def es buffer_def by simp
  have data: "map Data entries = payloads"
    unfolding entries_def using len by (rule map_Data_icns)
  have field: "take 4 (drop 4 buffer) = BigEndian_Uint32 (icns_totalSize entries)"
    by (simp add: buffer_def icns_serialize_eq length_BigEndian_Uint32)
  have nth: "Length (entries ! i) = word_of_nat (length (payloads ! i) + 8)"
    if "i < length types" for i
    unfolding entries_def nth_icns_entries [OF len that] by (simp add: icns_entry_for_def)
  have l1: "\<forall>i<length types. unat (Length (entries ! i)) = (length (payloads ! i) + 8) mod 2 ^ 32"
  proof (intro allI impI)
    fix i assume "i < length types"
    from nth [OF this] show "unat (Length (entries ! i)) = (length (payloads ! i) + 8) mod 2 ^ 32"
      by (simp only: unat_word_of_nat_32)
  qed
  have t1: "icns_totalSize entries = 8 + sum_list (map Length entries)"
    by (rule icns_totalSize_eq)
  have "icns_totalSize entries = word_of_nat (8 + sum_list (map (\<lambda>e. unat (Length e)) entries))"
    unfolding t1 using word_of_nat_sum_unat [of Length entries] by simp
  then have t2: "unat (icns_totalSize entries)
          = (8 + sum_list (map (\<lambda>e. unat (Length e)) entries)) mod 2 ^ 32"
    by (simp only: unat_word_of_nat_32)
  have small: "8 + sum_list (map (\<lambda>p. length p + 8) payloads) < 2 ^ 32 \<longrightarrow>
          (\<forall>i<length types. unat (Length (entries ! i)) = length (payloads ! i) + 8)
          \<and> unat (icns_totalSize entries) = 8 + sum_list (map (\<lambda>e. unat (Length e)) entries)"
  proof (intro impI)
    assume s: "8 + sum_list (map (\<lambda>p. length p + 8) payloads) < 2 ^ 32"
    have each: "length (payloads ! i) + 8 < 2 ^ 32" if "i < length types" for i
    proof -
      have "length (payloads ! i) + 8 \<le> sum_list (map (\<lambda>p. length p + 8) payloads)"
        using that len by (intro sum_list_nth_le [of i payloads "\<lambda>p. length p + 8"]) simp
      with s show ?thesis by linarith
    qed
    have a: "\<forall>i<length types. unat (Length (entries ! i)) = length (payloads ! i) + 8"
    proof (intro allI impI)
      fix i assume i: "i < length types"
      have "unat (Length (entries ! i)) = (length (payloads ! i) + 8) mod 2 ^ 32"
        using l1 i by blast
      also have "\<dots> = length (payloads ! i) + 8"
        using each [OF i] by (rule mod_less)
      finally show "unat (Length (entries ! i)) = length (payloads ! i) + 8" .
    qed
    have m: "map (\<lambda>e. unat (Length e)) entries = map (\<lambda>p. length p + 8) payloads"
    proof (rule nth_equalityI)
      show "length (map (\<lambda>e. unat (Length e)) entries) = length (map (\<lambda>p. length p + 8) payloads)"
        using len elen by simp
    next
      fix i assume "i < length (map (\<lambda>e. unat (Length e)) entries)"
      then have i: "i < length types" using elen by simp
      then have "i < length entries" "i < length payloads" using len elen by simp_all
      then show "map (\<lambda>e. unat (Length e)) entries ! i = map (\<lambda>p. length p + 8) payloads ! i"
        using a i by simp
    qed
    have "unat (icns_totalSize entries) = 8 + sum_list (map (\<lambda>e. unat (Length e)) entries)"
      unfolding t2 unfolding m using s by (rule mod_less)
    with a show "(\<forall>i<length types. unat (Length (entries ! i)) = length (payloads ! i) + 8)
          \<and> unat (icns_totalSize entries) = 8 + sum_list (map (\<lambda>e. unat (Length e)) entries)"
      by (rule conjI)
  qed
  show ?thesis
    by (rule exI [of _ entries], rule exI [of _ buffer])
      (intro conjI es buf data field l1 t1 t2 small)
qed

text \<open>The theorem at the standard table with images of \<open>Size\<close> bytes: the first entry has
  length \<open>16 + 8\<close>, the last \<open>512 + 8\<close>, and the total is exact.\<close>

theorem CreateIcns_entry_lengths_witness:
  "\<exists>entries. icns_entries stub_SvgToPng ''icon.svg'' StandardIconTypes [] = Inr entries
     \<and> unat (Length (entries ! 0)) = 24
     \<and> unat (Length (entries ! 10)) = 520
     \<and> unat (icns_totalSize entries) = 8 + sum_list (map (\<lambda>e. unat (Length e)) entries)"
proof -
  let ?ps = "map (\<lambda>t. replicate (nat (Size t)) (0::byte)) StandardIconTypes"
  have small: "8 + sum_list (map (\<lambda>p. length p + 8) ?ps) < 2 ^ 32"
    by (simp add: StandardIconTypes_def)
  have n: "0 < length StandardIconTypes" "10 < length StandardIconTypes"
    by (simp_all add: StandardIconTypes_def)
  have p0: "length (?ps ! 0) + 8 = 24" and p10: "length (?ps ! 10) + 8 = 520"
    by (simp_all add: StandardIconTypes_def)
  from CreateIcns_entry_lengths [of stub_SvgToPng "''icon.svg''" StandardIconTypes ?ps,
      OF stub_icns_payloads]
  obtain entries where e: "icns_entries stub_SvgToPng ''icon.svg'' StandardIconTypes [] = Inr entries"
    and imp: "8 + sum_list (map (\<lambda>p. length p + 8) ?ps) < 2 ^ 32 \<longrightarrow>
          (\<forall>i<length StandardIconTypes. unat (Length (entries ! i)) = length (?ps ! i) + 8)
          \<and> unat (icns_totalSize entries) = 8 + sum_list (map (\<lambda>e. unat (Length e)) entries)"
    by (elim exE conjE)
  from imp small have l: "\<forall>i<length StandardIconTypes. unat (Length (entries ! i)) = length (?ps ! i) + 8"
    and t: "unat (icns_totalSize entries) = 8 + sum_list (map (\<lambda>e. unat (Length e)) entries)"
    by blast+
  have a: "unat (Length (entries ! 0)) = 24"
    using l n(1) p0 by metis
  have b: "unat (Length (entries ! 10)) = 520"
    using l n(2) p10 by metis
  show ?thesis
    by (rule exI [of _ entries]) (intro conjI e a b t)
qed

text \<open>Without the reduction the statement fails: with images of \<open>2^32\<close> bytes every length
  field is 8 and the total-size field is 96.\<close>

theorem CreateIcns_entry_lengths_counterexample:
  "\<not> isl (icns_entries huge_SvgToPng ''icon.svg'' StandardIconTypes [])
   \<and> map length (map Data (projr (icns_entries huge_SvgToPng ''icon.svg'' StandardIconTypes [])))
       = [4294967296, 4294967296, 4294967296, 4294967296, 4294967296, 4294967296,
          4294967296, 4294967296, 4294967296, 4294967296, 4294967296]
   \<and> map Length (projr (icns_entries huge_SvgToPng ''icon.svg'' StandardIconTypes []))
       = [8, 8, 8, 8, 8, 8, 8, 8, 8, 8, 8]
   \<and> icns_totalSize (projr (icns_entries huge_SvgToPng ''icon.svg'' StandardIconTypes [])) = 96"
proof -
  have z: "(word_of_nat (length huge_png) :: 32 word) = 0"
    unfolding length_huge_png by simp
  have e: "icns_entries huge_SvgToPng ''icon.svg'' StandardIconTypes []
      = Inr (map (\<lambda>t. icns_entry_for t huge_png) StandardIconTypes)"
    by (simp add: StandardIconTypes_def huge_SvgToPng_def icns_entry_for_def)
  show ?thesis
    unfolding e
    by (simp add: StandardIconTypes_def icns_entry_for_def z length_huge_png icns_totalSize_def)
qed

section \<open>Width and height bytes\<close>

lemma IconSizes_nth_cases:
  "i < length IconSizes \<Longrightarrow> IconSizes ! i \<in> {16, 24, 32, 48, 64, 128, 256}"
  using nth_mem [of i IconSizes] by (simp add: IconSizes_def)

lemma uint8_of_IconSize:
  "s \<in> {16, 24, 32, 48, 64, 128} \<Longrightarrow> uint (word_of_int s :: 8 word) = s"
  by auto

text \<open>C3. For every size in the ICO size list, \<open>CreateIco\<close> encodes the directory entry's
  width and height bytes as 0 when the size is 256, and as the size itself for every other
  size (so no size other than 256 gets the byte 0).\<close>

theorem CreateIco_width_height:
  assumes ok: "map (SvgToPng svgPath) IconSizes = map Inr payloads" and i: "i < length IconSizes"
  shows "\<exists>entries. CreateIco_layout SvgToPng IconSizes svgPath = Inr (payloads, entries)
     \<and> (IconSizes ! i = 256 \<longrightarrow> Width (entries ! i) = 0 \<and> Height (entries ! i) = 0)
     \<and> (IconSizes ! i \<noteq> 256 \<longrightarrow>
          uint (Width (entries ! i)) = IconSizes ! i \<and> uint (Height (entries ! i)) = IconSizes ! i
          \<and> Width (entries ! i) \<noteq> 0 \<and> Height (entries ! i) \<noteq> 0)"
proof -
  from CreateIco_layout_fields [of SvgToPng svgPath IconSizes payloads, OF ok]
  obtain entries where lay: "CreateIco_layout SvgToPng IconSizes svgPath = Inr (payloads, entries)"
    and nth: "\<forall>k<length IconSizes. entries ! k = ico_entry_for (IconSizes ! k) (payloads ! k)
           (word_of_nat (6 + 16 * length IconSizes + sum_list (map length (take k payloads))))"
    by (elim exE conjE)
  define s where "s = IconSizes ! i"
  have w: "Width (entries ! i) = (if s = 256 then 0 else word_of_int s)"
    and h: "Height (entries ! i) = (if s = 256 then 0 else word_of_int s)"
    using nth i by (simp_all add: ico_entry_for_def s_def)
  have c1: "s = 256 \<longrightarrow> Width (entries ! i) = 0 \<and> Height (entries ! i) = 0"
    using w h by simp
  have c2: "s \<noteq> 256 \<longrightarrow>
          uint (Width (entries ! i)) = s \<and> uint (Height (entries ! i)) = s
          \<and> Width (entries ! i) \<noteq> 0 \<and> Height (entries ! i) \<noteq> 0"
  proof
    assume ne: "s \<noteq> 256"
    with IconSizes_nth_cases [OF i] have m: "s \<in> {16, 24, 32, 48, 64, 128}"
      by (simp add: s_def)
    have u: "uint (word_of_int s :: 8 word) = s"
      using m by (rule uint8_of_IconSize)
    have nz: "(word_of_int s :: 8 word) \<noteq> 0"
    proof
      assume "(word_of_int s :: 8 word) = 0"
      then have "uint (word_of_int s :: 8 word) = 0" by simp
      with u m show False by auto
    qed
    show "uint (Width (entries ! i)) = s \<and> uint (Height (entries ! i)) = s
          \<and> Width (entries ! i) \<noteq> 0 \<and> Height (entries ! i) \<noteq> 0"
      using ne u nz w h by simp
  qed
  show ?thesis
    by (rule exI [of _ entries]) (intro conjI lay c1 [unfolded s_def] c2 [unfolded s_def])
qed

text \<open>The theorem at the default run: the entry for 256 has bytes 0 and 0, the entry for 128
  has bytes 128 and 128.\<close>

theorem CreateIco_width_height_witness:
  "\<exists>entries. CreateIco_layout stub_SvgToPng IconSizes ''icon.svg''
       = Inr (map (\<lambda>s. replicate (nat s) 0) IconSizes, entries)
     \<and> Width (entries ! 6) = 0 \<and> Height (entries ! 6) = 0
     \<and> uint (Width (entries ! 5)) = 128 \<and> uint (Height (entries ! 5)) = 128"
proof -
  let ?ps = "map (\<lambda>s. replicate (nat s) (0::byte)) IconSizes"
  have i6: "6 < length IconSizes" and i5: "5 < length IconSizes"
    and s6: "IconSizes ! 6 = 256" and s5: "IconSizes ! 5 = 128"
    by (simp_all add: IconSizes_def)
  from CreateIco_width_height [of stub_SvgToPng "''icon.svg''" ?ps 6, OF stub_payloads i6]
  obtain entries where lay: "CreateIco_layout stub_SvgToPng IconSizes ''icon.svg'' = Inr (?ps, entries)"
    and a: "IconSizes ! 6 = 256 \<longrightarrow> Width (entries ! 6) = 0 \<and> Height (entries ! 6) = 0"
    by (elim exE conjE)
  from CreateIco_width_height [of stub_SvgToPng "''icon.svg''" ?ps 5, OF stub_payloads i5]
  obtain entries' where lay': "CreateIco_layout stub_SvgToPng IconSizes ''icon.svg'' = Inr (?ps, entries')"
    and b': "IconSizes ! 5 \<noteq> 256 \<longrightarrow>
          uint (Width (entries' ! 5)) = IconSizes ! 5 \<and> uint (Height (entries' ! 5)) = IconSizes ! 5
          \<and> Width (entries' ! 5) \<noteq> 0 \<and> Height (entries' ! 5) \<noteq> 0"
    by (elim exE conjE)
  from lay lay' have same: "entries' = entries" by simp
  from a s6 have w6: "Width (entries ! 6) = 0" and h6: "Height (entries ! 6) = 0" by simp_all
  from b' s5 same have w5: "uint (Width (entries ! 5)) = 128" and h5: "uint (Height (entries ! 5)) = 128"
    by simp_all
  show ?thesis
    by (rule exI [of _ entries]) (intro conjI lay w6 h6 w5 h5)
qed

section \<open>Failure of the rasterizer\<close>

lemma CreateIco_first_failure:
  assumes "k < length sizes" and "SvgToPng svgPath (sizes ! k) = Inl e"
    and "\<forall>j<k. \<exists>p. SvgToPng svgPath (sizes ! j) = Inr p"
  shows "CreateIco_buffer SvgToPng sizes svgPath = Inl (Err e)"
    and "CreateIco SvgToPng WriteFile sizes svgPath outputPath fs = (Some (Err e), fs)"
proof -
  have "ico_imageData SvgToPng svgPath sizes [] = Inl e"
    using assms by (rule ico_imageData_first_failure)
  then show b: "CreateIco_buffer SvgToPng sizes svgPath = Inl (Err e)"
    by (simp add: CreateIco_buffer_def CreateIco_layout_def)
  show "CreateIco SvgToPng WriteFile sizes svgPath outputPath fs = (Some (Err e), fs)"
    unfolding CreateIco_def b by simp
qed

lemma CreateIcns_first_failure:
  assumes "k < length types" and "SvgToPng svgPath (Size (types ! k)) = Inl e"
    and "\<forall>j<k. \<exists>p. SvgToPng svgPath (Size (types ! j)) = Inr p"
  shows "CreateIcns_buffer SvgToPng types svgPath = Inl e"
    and "CreateIcns SvgToPng WriteFile types svgPath outputPath fs = (Some e, fs)"
proof -
  have "icns_entries SvgToPng svgPath types [] = Inl e"
    using assms by (rule icns_entries_first_failure)
  then show b: "CreateIcns_buffer SvgToPng types svgPath = Inl e"
    by (simp add: CreateIcns_buffer_def)
  show "CreateIcns SvgToPng WriteFile types svgPath outputPath fs = (Some e, fs)"
    unfolding CreateIcns_def b by simp
qed

text \<open>C4. If rasterization fails for any size of the list (for any row of the
  table), \<open>CreateIco\<close> (\<open>CreateIcns\<close>) builds no buffer, does not call \<open>os.WriteFile\<close>, so the
  file system is left as it was, and returns exactly the error value the rasterizer returned
  for the first failing size in list order, neither wrapped nor changed. The encoder adds
  nothing to that error: which size failed can be read off only as far as the rasterizer's
  own error value says it.\<close>

theorem rasterization_failure_aborts:
  "(s \<in> set sizes \<and> SvgToPng svgPath s = Inl e0 \<longrightarrow>
      (\<exists>k e. k < length sizes \<and> SvgToPng svgPath (sizes ! k) = Inl e
         \<and> (\<forall>j<k. \<exists>p. SvgToPng svgPath (sizes ! j) = Inr p)
         \<and> CreateIco_buffer SvgToPng sizes svgPath = Inl (Err e)
         \<and> CreateIco SvgToPng WriteFile sizes svgPath outputPath fs = (Some (Err e), fs)))
   \<and> (t \<in> set types \<and> SvgToPng svgPath (Size t) = Inl e1 \<longrightarrow>
      (\<exists>k e. k < length types \<and> SvgToPng svgPath (Size (types ! k)) = Inl e
         \<and> (\<forall>j<k. \<exists>p. SvgToPng svgPath (Size (types ! j)) = Inr p)
         \<and> CreateIcns_buffer SvgToPng types svgPath = Inl e
         \<and> CreateIcns SvgToPng WriteFile types svgPath outputPath fs = (Some e, fs)))"
proof (intro conjI impI)
  assume "s \<in> set sizes \<and> SvgToPng svgPath s = Inl e0"
  then have "s \<in> set sizes" "SvgToPng svgPath s = Inl e0" by simp_all
  from first_failing_index [of s sizes "SvgToPng svgPath" e0, OF this]
  obtain k e where k: "k < length sizes" "SvgToPng svgPath (sizes ! k) = Inl e"
    "\<forall>j<k. \<exists>p. SvgToPng svgPath (sizes ! j) = Inr p"
    by (elim exE conjE)
  show "\<exists>k e. k < length sizes \<and> SvgToPng svgPath (sizes ! k) = Inl e
         \<and> (\<forall>j<k. \<exists>p. SvgToPng svgPath (sizes ! j) = Inr p)
         \<and> CreateIco_buffer SvgToPng sizes svgPath = Inl (Err e)
         \<and> CreateIco SvgToPng WriteFile sizes svgPath outputPath fs = (Some (Err e), fs)"
    by (rule exI [of _ k], rule exI [of _ e])
      (intro conjI k CreateIco_first_failure [of k sizes SvgToPng svgPath e, OF k])
next
  assume "t \<in> set types \<and> SvgToPng svgPath (Size t) = Inl e1"
  then have "t \<in> set types" "SvgToPng svgPath (Size t) = Inl e1" by simp_all
  from first_failing_index [of t types "\<lambda>t. SvgToPng svgPath (Size t)" e1, OF this]
  obtain k e where k: "k < length types" "SvgToPng svgPath (Size (types ! k)) = Inl e"
    "\<forall>j<k. \<exists>p. SvgToPng svgPath (Size (types ! j)) = Inr p"
    by (elim exE conjE)
  show "\<exists>k e. k < length types \<and> SvgToPng svgPath (Size (types ! k)) = Inl e
         \<and> (\<forall>j<k. \<exists>p. SvgToPng svgPath (Size (types ! j)) = Inr p)
         \<and> CreateIcns_buffer SvgToPng types svgPath = Inl e
         \<and> CreateIcns SvgToPng WriteFile types svgPath outputPath fs = (Some e, fs)"
    by (rule exI [of _ k], rule exI [of _ e])
      (intro conjI k CreateIcns_first_failure [of k types SvgToPng svgPath e, OF k])
qed

text \<open>The theorem at a rasterizer that fails at 32 pixels, the third size of the ICO list and
  the second row of the ICNS table: both calls return its error and leave the empty file
  system empty.\<close>

theorem rasterization_failure_aborts_witness:
  "CreateIco (failing_SvgToPng 32) mem_WriteFile IconSizes ''icon.svg'' ''icon.ico'' Map.empty
     = (Some (Err ''render failed''), Map.empty)
   \<and> CreateIcns (failing_SvgToPng 32) mem_WriteFile StandardIconTypes ''icon.svg'' ''icon.icns''
       Map.empty = (Some ''render failed'', Map.empty)"
proof -
  have only: "e = ''render failed''" if "failing_SvgToPng 32 ''icon.svg'' x = Inl e" for x e
    using that by (simp add: failing_SvgToPng_def split: if_splits)
  have f: "failing_SvgToPng 32 ''icon.svg'' 32 = Inl ''render failed''"
    by (simp add: failing_SvgToPng_def)
  have m1: "32 \<in> set IconSizes" by (simp add: IconSizes_def)
  have m2: "\<lparr>IconType.OSType = ''icp5'', Size = 32, IsRetina = False\<rparr> \<in> set StandardIconTypes"
    by (simp add: StandardIconTypes_def)
  have f2: "failing_SvgToPng 32 ''icon.svg''
      (Size \<lparr>IconType.OSType = ''icp5'', Size = 32, IsRetina = False\<rparr>) = Inl ''render failed''"
    by (simp add: failing_SvgToPng_def)
  note th = rasterization_failure_aborts [of 32 IconSizes "failing_SvgToPng 32" "''icon.svg''"
      "''render failed''" mem_WriteFile _ Map.empty
      "\<lparr>IconType.OSType = ''icp5'', Size = 32, IsRetina = False\<rparr>" StandardIconTypes
      "''render failed''"]
  from th [of "''icon.ico''", THEN conjunct1, rule_format, OF conjI, OF m1 f]
  obtain k e where "failing_SvgToPng 32 ''icon.svg'' (IconSizes ! k) = Inl e"
    and "CreateIco (failing_SvgToPng 32) mem_WriteFile IconSizes ''icon.svg'' ''icon.ico'' Map.empty
      = (Some (Err e), Map.empty)"
    by (elim exE conjE)
  with only have a: "CreateIco (failing_SvgToPng 32) mem_WriteFile IconSizes ''icon.svg''
      ''icon.ico'' Map.empty = (Some (Err ''render failed''), Map.empty)"
    by metis
  from th [of "''icon.icns''", THEN conjunct2, rule_format, OF conjI, OF m2 f2]
  obtain k e where "failing_SvgToPng 32 ''icon.svg'' (Size (StandardIconTypes ! k)) = Inl e"
    and "CreateIcns (failing_SvgToPng 32) mem_WriteFile StandardIconTypes ''icon.svg''
      ''icon.icns'' Map.empty = (Some e, Map.empty)"
    by (elim exE conjE)
  with only have b: "CreateIcns (failing_SvgToPng 32) mem_WriteFile StandardIconTypes ''icon.svg''
      ''icon.icns'' Map.empty = (Some ''render failed'', Map.empty)"
    by metis
  from a b show ?thesis by (rule conjI)
qed

text \<open>The returned error does not identify the failing size: a rasterizer failing at 24 and one
  failing at 32 make \<open>CreateIco\<close> return the same error value.\<close>

theorem rasterization_failure_aborts_counterexample:
  "CreateIco (failing_SvgToPng 24) mem_WriteFile IconSizes ''icon.svg'' ''icon.ico'' Map.empty
     = (Some (Err ''render failed''), Map.empty)
   \<and> CreateIco (failing_SvgToPng 32) mem_WriteFile IconSizes ''icon.svg'' ''icon.ico'' Map.empty
     = (Some (Err ''render failed''), Map.empty)
   \<and> failing_SvgToPng 24 ''icon.svg'' 24 = Inl ''render failed''
   \<and> failing_SvgToPng 32 ''icon.svg'' 24 = Inr (replicate 24 0)
   \<and> failing_SvgToPng 32 ''icon.svg'' 32 = Inl ''render failed''"
  by (simp add: CreateIco_def CreateIco_buffer_def CreateIco_layout_def IconSizes_def
      failing_SvgToPng_def)

section \<open>Layout of the ICO buffer\<close>

lemma CreateIco_buffer_ok:
  assumes "map (SvgToPng svgPath) sizes = map Inr payloads"
  shows "CreateIco_buffer SvgToPng sizes svgPath =
     Inr (ico_serialize (length sizes)
            (ico_directory sizes payloads (word_of_nat (6 + 16 * length sizes))) payloads)"
  unfolding CreateIco_buffer_def
    CreateIco_layout_ok [of SvgToPng svgPath sizes payloads, OF assms]
  by simp

lemma CreateIco_buffer_Inr:
  assumes "CreateIco_buffer SvgToPng sizes svgPath = Inr buffer"
  shows "\<exists>payloads. map (SvgToPng svgPath) sizes = map Inr payloads
     \<and> buffer = ico_serialize (length sizes)
         (ico_directory sizes payloads (word_of_nat (6 + 16 * length sizes))) payloads"
proof (cases "ico_imageData SvgToPng svgPath sizes []")
  case (Inl e)
  with assms show ?thesis
    by (simp add: CreateIco_buffer_def CreateIco_layout_def)
next
  case (Inr r)
  from ico_imageData_Inr [OF Inr] have ok: "map (SvgToPng svgPath) sizes = map Inr r"
    by simp
  from assms have "buffer = ico_serialize (length sizes)
         (ico_directory sizes r (word_of_nat (6 + 16 * length sizes))) r"
    unfolding CreateIco_buffer_ok [of SvgToPng svgPath sizes r, OF ok] by simp
  with ok show ?thesis by blast
qed

text \<open>The index \<open>i\<close> of the second loop never leaves \<open>imageData\<close>: the first loop has
  appended one image per size, so \<open>CreateIco\<close> cannot end in the index panic.\<close>

lemma CreateIco_no_panic: "CreateIco_buffer SvgToPng sizes svgPath \<noteq> Inl IndexPanic"
proof (cases "ico_imageData SvgToPng svgPath sizes []")
  case (Inl e)
  then show ?thesis
    by (simp add: CreateIco_buffer_def CreateIco_layout_def)
next
  case (Inr r)
  from ico_imageData_Inr [OF Inr] have ok: "map (SvgToPng svgPath) sizes = map Inr r"
    by simp
  show ?thesis
    unfolding CreateIco_buffer_ok [of SvgToPng svgPath sizes r, OF ok] by simp
qed

lemma length_concat_entries:
  "length (concat (map (write_ICONDIREntry []) es)) = 16 * length es"
  by (induction es) (simp_all add: length_write_ICONDIREntry)

lemma entry_chunk:
  "i < length es \<Longrightarrow>
   take 16 (drop (16 * i) (concat (map (write_ICONDIREntry []) es) @ rest))
     = write_ICONDIREntry [] (es ! i)"
proof (induction es arbitrary: i)
  case Nil
  then show ?case by simp
next
  case (Cons e es)
  show ?case
  proof (cases i)
    case 0
    then show ?thesis by (simp add: length_write_ICONDIREntry)
  next
    case (Suc j)
    with Cons.prems have j: "j < length es" by simp
    have "drop (16 * i) (concat (map (write_ICONDIREntry []) (e # es)) @ rest)
        = drop (16 * j) (concat (map (write_ICONDIREntry []) es) @ rest)"
      using Suc by (simp add: length_write_ICONDIREntry)
    with Cons.IH [OF j] Suc show ?thesis by simp
  qed
qed

lemma write_ico_entry_for:
  "write_ICONDIREntry [] (ico_entry_for s p off) =
     [Width (ico_entry_for s p off), Height (ico_entry_for s p off), 0, 0, 1, 0, 32, 0]
       @ LittleEndian_Uint32 (BytesInRes (ico_entry_for s p off))
       @ LittleEndian_Uint32 (ImageOffset (ico_entry_for s p off))"
  by (simp add: write_ICONDIREntry_def ico_entry_for_def LittleEndian_Uint16_def)

lemma take4_of_chunk:
  "take 4 (drop (a + 8) xs) = take 4 (drop 8 (take 16 (drop a xs)))"
  "take 4 (drop (a + 12) xs) = take 4 (drop 12 (take 16 (drop a xs)))"
  by (simp_all add: drop_take add.commute)

text \<open>C5. Whenever \<open>CreateIco\<close> builds a buffer for the 7-element default size list, its first
  6 bytes are \<open>00 00 01 00 07 00\<close>; the next \<open>7 * 16 = 112\<close> bytes are the directory entries
  in list order, each of 16 bytes: width, height, 0, 0, \<open>01 00\<close>, \<open>20 00\<close>, then the 4-byte
  length and the 4-byte offset, least significant byte first; and the rest is the 7 payloads
  concatenated in the order of the sizes 16, 24, 32, 48, 64, 128, 256.\<close>

theorem CreateIco_default_buffer_layout:
  assumes b: "CreateIco_buffer SvgToPng IconSizes svgPath = Inr buffer"
  shows "\<exists>payloads entries.
       map (SvgToPng svgPath) [16, 24, 32, 48, 64, 128, 256] = map Inr payloads
     \<and> CreateIco_layout SvgToPng IconSizes svgPath = Inr (payloads, entries)
     \<and> length payloads = 7 \<and> length entries = 7
     \<and> take 6 buffer = [0, 0, 1, 0, 7, 0]
     \<and> take 112 (drop 6 buffer) = concat (map (write_ICONDIREntry []) entries)
     \<and> drop 118 buffer = concat payloads
     \<and> (\<forall>i<7. take 16 (drop (6 + 16 * i) buffer)
            = [Width (entries ! i), Height (entries ! i), 0, 0, 1, 0, 32, 0]
                @ LittleEndian_Uint32 (BytesInRes (entries ! i))
                @ LittleEndian_Uint32 (ImageOffset (entries ! i))
          \<and> LittleEndian_decode (take 4 (drop (6 + 16 * i + 8) buffer))
              = unat (BytesInRes (entries ! i))
          \<and> LittleEndian_decode (take 4 (drop (6 + 16 * i + 12) buffer))
              = unat (ImageOffset (entries ! i)))"
proof -
  have n: "length IconSizes = 7" by (simp add: IconSizes_def)
  from CreateIco_buffer_Inr [OF b] obtain payloads
    where ok: "map (SvgToPng svgPath) IconSizes = map Inr payloads"
      and buf: "buffer = ico_serialize (length IconSizes)
         (ico_directory IconSizes payloads (word_of_nat (6 + 16 * length IconSizes))) payloads"
    by (elim exE conjE)
  define entries where
    "entries = ico_directory IconSizes payloads (word_of_nat (6 + 16 * length IconSizes))"
  have plen: "length payloads = 7"
    using ok n by (metis length_map)
  have elen: "length entries = 7"
    unfolding entries_def using plen n by (simp add: length_ico_directory)
  have lay: "CreateIco_layout SvgToPng IconSizes svgPath = Inr (payloads, entries)"
    unfolding entries_def by (rule CreateIco_layout_ok [of SvgToPng svgPath IconSizes payloads, OF ok])
  have ok': "map (SvgToPng svgPath) [16, 24, 32, 48, 64, 128, 256] = map Inr payloads"
    using ok by (simp only: IconSizes_def)
  define E where "E = concat (map (write_ICONDIREntry []) entries)"
  define P where "P = concat payloads"
  have lenE: "length E = 112"
    unfolding E_def length_concat_entries elen by simp
  have "buffer = ico_serialize (length IconSizes) entries payloads"
    unfolding buf entries_def ..
  then have shape: "buffer = [0, 0, 1, 0, 7, 0] @ E @ P"
    unfolding ico_serialize_eq n E_def P_def
    by (simp add: LittleEndian_Uint16_def)
  have h: "take 6 buffer = [0, 0, 1, 0, 7, 0]"
    unfolding shape by simp
  have d6: "drop 6 buffer = E @ P"
    unfolding shape by simp
  have e: "take 112 (drop 6 buffer) = E"
    unfolding d6 using lenE by simp
  have p: "drop 118 buffer = P"
    unfolding shape using lenE by simp
  have nth: "entries ! i = ico_entry_for (IconSizes ! i) (payloads ! i)
      (word_of_nat (6 + 16 * length IconSizes) + word_of_nat (sum_list (map length (take i payloads))))"
    if "i < 7" for i
    unfolding entries_def using that n plen by (simp add: ico_directory_nth)
  have chunk: "take 16 (drop (6 + 16 * i) buffer) = write_ICONDIREntry [] (entries ! i)"
    if "i < 7" for i
  proof -
    have d: "drop (6 + 16 * i) buffer = drop (16 * i) (drop 6 buffer)"
      by (simp add: add.commute)
    show ?thesis
      unfolding d d6 E_def by (rule entry_chunk) (simp add: that elen)
  qed
  have fields: "take 16 (drop (6 + 16 * i) buffer)
            = [Width (entries ! i), Height (entries ! i), 0, 0, 1, 0, 32, 0]
                @ LittleEndian_Uint32 (BytesInRes (entries ! i))
                @ LittleEndian_Uint32 (ImageOffset (entries ! i))"
    if "i < 7" for i
    unfolding chunk [OF that] unfolding nth [OF that] by (rule write_ico_entry_for)
  have all: "\<forall>i<7. take 16 (drop (6 + 16 * i) buffer)
            = [Width (entries ! i), Height (entries ! i), 0, 0, 1, 0, 32, 0]
                @ LittleEndian_Uint32 (BytesInRes (entries ! i))
                @ LittleEndian_Uint32 (ImageOffset (entries ! i))
          \<and> LittleEndian_decode (take 4 (drop (6 + 16 * i + 8) buffer))
              = unat (BytesInRes (entries ! i))
          \<and> LittleEndian_decode (take 4 (drop (6 + 16 * i + 12) buffer))
              = unat (ImageOffset (entries ! i))"
  proof (intro allI impI conjI)
    fix i :: nat assume i: "i < 7"
    show "take 16 (drop (6 + 16 * i) buffer)
            = [Width (entries ! i), Height (entries ! i), 0, 0, 1, 0, 32, 0]
                @ LittleEndian_Uint32 (BytesInRes (entries ! i))
                @ LittleEndian_Uint32 (ImageOffset (entries ! i))"
      by (rule fields [OF i])
    show "LittleEndian_decode (take 4 (drop (6 + 16 * i + 8) buffer))
              = unat (BytesInRes (entries ! i))"
      unfolding take4_of_chunk fields [OF i]
      by (simp add: length_LittleEndian_Uint32 LittleEndian_decode_Uint32)
    show "LittleEndian_decode (take 4 (drop (6 + 16 * i + 12) buffer))
              = unat (ImageOffset (entries ! i))"
      unfolding take4_of_chunk fields [OF i]
      by (simp add: length_LittleEndian_Uint32 LittleEndian_decode_Uint32)
  qed
  show ?thesis
    by (rule exI [of _ payloads], rule exI [of _ entries])
      (intro conjI ok' lay plen elen h e [unfolded E_def] p [unfolded P_def] all)
qed

text \<open>The theorem at the stub rasterizer: header, then the entry for 16 pixels (16 bytes of
  image data at offset 118).\<close>

theorem CreateIco_default_buffer_layout_witness:
  "\<exists>buffer. CreateIco_buffer stub_SvgToPng IconSizes ''icon.svg'' = Inr buffer
     \<and> take 6 buffer = [0, 0, 1, 0, 7, 0]
     \<and> take 16 (drop 6 buffer) = [16, 16, 0, 0, 1, 0, 32, 0, 16, 0, 0, 0, 118, 0, 0, 0]
     \<and> LittleEndian_decode (take 4 (drop 14 buffer)) = 16"
proof -
  let ?ps = "map (\<lambda>s. replicate (nat s) (0::byte)) IconSizes"
  let ?es = "ico_directory IconSizes ?ps (word_of_nat (6 + 16 * length IconSizes))"
  let ?B = "ico_serialize (length IconSizes) ?es ?ps"
  have b0: "CreateIco_buffer stub_SvgToPng IconSizes ''icon.svg'' = Inr ?B"
    by (rule CreateIco_buffer_ok [of stub_SvgToPng "''icon.svg''" IconSizes ?ps, OF stub_payloads])
  have lay0: "CreateIco_layout stub_SvgToPng IconSizes ''icon.svg'' = Inr (?ps, ?es)"
    by (rule CreateIco_layout_ok [of stub_SvgToPng "''icon.svg''" IconSizes ?ps, OF stub_payloads])
  from CreateIco_default_buffer_layout [of stub_SvgToPng "''icon.svg''" ?B, OF b0]
  obtain payloads entries
    where lay: "CreateIco_layout stub_SvgToPng IconSizes ''icon.svg'' = Inr (payloads, entries)"
      and h: "take 6 ?B = [0, 0, 1, 0, 7, 0]"
      and all: "\<forall>i<7. take 16 (drop (6 + 16 * i) ?B)
            = [Width (entries ! i), Height (entries ! i), 0, 0, 1, 0, 32, 0]
                @ LittleEndian_Uint32 (BytesInRes (entries ! i))
                @ LittleEndian_Uint32 (ImageOffset (entries ! i))
          \<and> LittleEndian_decode (take 4 (drop (6 + 16 * i + 8) ?B))
              = unat (BytesInRes (entries ! i))
          \<and> LittleEndian_decode (take 4 (drop (6 + 16 * i + 12) ?B))
              = unat (ImageOffset (entries ! i))"
    by (elim exE conjE)
  have "Inr (?ps, ?es) = (Inr (payloads, entries) :: string failure + _)"
    by (rule trans [OF lay0 [symmetric] lay])
  then have "(?ps, ?es) = (payloads, entries)"
    by (rule sum.inject(2) [THEN iffD1])
  then have es: "entries = ?es"
    by (rule prod.inject [THEN iffD1, THEN conjunct2, symmetric])
  have e0: "entries ! 0 = ico_entry_for 16 (replicate 16 0) 118"
    unfolding es by (simp add: IconSizes_def)
  have z: "(0::nat) < 7" by simp
  note a = all [rule_format, OF z]
  have a0: "take 16 (drop 6 ?B)
            = [Width (entries ! 0), Height (entries ! 0), 0, 0, 1, 0, 32, 0]
                @ LittleEndian_Uint32 (BytesInRes (entries ! 0))
                @ LittleEndian_Uint32 (ImageOffset (entries ! 0))"
    using a [THEN conjunct1] by simp
  have d0: "LittleEndian_decode (take 4 (drop 14 ?B)) = unat (BytesInRes (entries ! 0))"
    using a [THEN conjunct2, THEN conjunct1] by simp
  have c: "take 16 (drop 6 ?B) = [16, 16, 0, 0, 1, 0, 32, 0, 16, 0, 0, 0, 118, 0, 0, 0]"
    using a0 unfolding e0 by (simp add: ico_entry_for_def LittleEndian_Uint32_def)
  have d: "LittleEndian_decode (take 4 (drop 14 ?B)) = 16"
    using d0 unfolding e0 by (simp add: ico_entry_for_def)
  show ?thesis
    by (rule exI [of _ ?B]) (intro conjI b0 h c d)
qed

section \<open>Layout of the ICNS buffer\<close>

lemma CreateIcns_buffer_Inr:
  assumes "CreateIcns_buffer SvgToPng types svgPath = Inr buffer"
  shows "\<exists>payloads. map (\<lambda>t. SvgToPng svgPath (Size t)) types = map Inr payloads
     \<and> buffer = map of_char ''icns''
          @ BigEndian_Uint32 (word_of_nat (8 + sum_list (map (\<lambda>p. length p + 8) payloads)))
          @ concat (map (write_IconEntry []) (map2 icns_entry_for types payloads))"
proof (cases "icns_entries SvgToPng svgPath types []")
  case (Inl e)
  with assms show ?thesis
    by (simp add: CreateIcns_buffer_def)
next
  case (Inr r)
  from icns_entries_Inr [OF Inr] obtain payloads
    where ok: "map (\<lambda>t. SvgToPng svgPath (Size t)) types = map Inr payloads"
    by (elim exE conjE)
  from assms have "buffer = map of_char ''icns''
          @ BigEndian_Uint32 (word_of_nat (8 + sum_list (map (\<lambda>p. length p + 8) payloads)))
          @ concat (map (write_IconEntry []) (map2 icns_entry_for types payloads))"
    unfolding CreateIcns_buffer_ok [of SvgToPng svgPath types payloads, OF ok] by simp
  with ok show ?thesis by blast
qed

lemma write_icns_entry_for:
  "write_IconEntry [] (icns_entry_for t p)
     = copy_OSType (IconType.OSType t) @ BigEndian_Uint32 (word_of_nat (length p + 8)) @ p"
  by (simp add: write_IconEntry_def icns_entry_for_def add.commute)

lemma icns_chunks:
  "map (write_IconEntry []) (map2 icns_entry_for types payloads)
     = map2 (\<lambda>code p. copy_OSType code @ BigEndian_Uint32 (word_of_nat (length p + 8)) @ p)
         (map IconType.OSType types) payloads"
proof (induction types arbitrary: payloads)
  case Nil
  then show ?case by simp
next
  case (Cons t types)
  then show ?case
    by (cases payloads) (simp_all add: write_icns_entry_for)
qed

lemma four_char_codes:
  "\<forall>c\<in>set codes. length c = 4 \<Longrightarrow>
   map2 (\<lambda>code p. copy_OSType code @ g p) codes payloads
     = map2 (\<lambda>code p. map of_char code @ g p) codes payloads"
proof (induction codes arbitrary: payloads)
  case Nil
  then show ?case by simp
next
  case (Cons c codes)
  then show ?case
    by (cases payloads) (simp_all add: copy_OSType_4)
qed

lemma StandardIconTypes_codes:
  "map IconType.OSType StandardIconTypes
     = [''icp4'', ''icp5'', ''icp6'', ''ic07'', ''ic08'', ''ic09'', ''ic10'',
        ''ic11'', ''ic12'', ''ic13'', ''ic14'']"
  by (simp add: StandardIconTypes_def)

lemma StandardIconTypes_sizes:
  "map (\<lambda>t. f (Size t)) StandardIconTypes
     = map f [16, 32, 64, 128, 256, 512, 1024, 32, 64, 256, 512]"
  by (simp add: StandardIconTypes_def)

text \<open>C6. Whenever \<open>CreateIcns\<close> builds a buffer for the standard table, the buffer is the 4
  ASCII bytes \<open>icns\<close>, then the total size as 4 bytes, most significant first, then for each
  of the 11 table rows in table order the 4 bytes of the type code as they are, the entry
  length (payload length + 8, as a \<open>uint32\<close>) as 4 bytes, most significant first, and the
  payload bytes; nothing stands between the entries, so the buffer is 8 bytes longer than the
  sum of the payload lengths + 8.\<close>

theorem CreateIcns_buffer_layout:
  assumes b: "CreateIcns_buffer SvgToPng StandardIconTypes svgPath = Inr buffer"
  shows "\<exists>payloads.
       map (SvgToPng svgPath) [16, 32, 64, 128, 256, 512, 1024, 32, 64, 256, 512]
         = map Inr payloads
     \<and> length payloads = 11
     \<and> buffer = map of_char ''icns''
         @ BigEndian_Uint32 (word_of_nat (8 + sum_list (map (\<lambda>p. length p + 8) payloads)))
         @ concat (map2 (\<lambda>code p. map of_char code
                           @ BigEndian_Uint32 (word_of_nat (length p + 8)) @ p)
             [''icp4'', ''icp5'', ''icp6'', ''ic07'', ''ic08'', ''ic09'', ''ic10'',
              ''ic11'', ''ic12'', ''ic13'', ''ic14''] payloads)
     \<and> take 4 buffer = [105, 99, 110, 115]
     \<and> BigEndian_decode (take 4 (drop 4 buffer))
         = (8 + sum_list (map (\<lambda>p. length p + 8) payloads)) mod 2 ^ 32
     \<and> length buffer = 8 + sum_list (map (\<lambda>p. length p + 8) payloads)"
proof -
  from CreateIcns_buffer_Inr [OF b] obtain payloads
    where ok: "map (\<lambda>t. SvgToPng svgPath (Size t)) StandardIconTypes = map Inr payloads"
      and buf: "buffer = map of_char ''icns''
          @ BigEndian_Uint32 (word_of_nat (8 + sum_list (map (\<lambda>p. length p + 8) payloads)))
          @ concat (map (write_IconEntry []) (map2 icns_entry_for StandardIconTypes payloads))"
    by (elim exE conjE)
  have ok': "map (SvgToPng svgPath) [16, 32, 64, 128, 256, 512, 1024, 32, 64, 256, 512]
         = map Inr payloads"
    using ok unfolding StandardIconTypes_sizes [of "SvgToPng svgPath"] .
  have plen: "length payloads = 11"
  proof -
    have "length (map Inr payloads :: ('a + byte list) list)
        = length (map (SvgToPng svgPath) [16, 32, 64, 128, 256, 512, 1024, 32, 64, 256, 512])"
      unfolding ok' ..
    then show ?thesis by simp
  qed
  have len: "length StandardIconTypes = length payloads"
    using ok by (metis length_map)
  have four: "\<forall>c\<in>set [''icp4'', ''icp5'', ''icp6'', ''ic07'', ''ic08'', ''ic09'', ''ic10'',
        ''ic11'', ''ic12'', ''ic13'', ''ic14'']. length c = 4"
    by simp
  have shape: "buffer = map of_char ''icns''
         @ BigEndian_Uint32 (word_of_nat (8 + sum_list (map (\<lambda>p. length p + 8) payloads)))
         @ concat (map2 (\<lambda>code p. map of_char code
                           @ BigEndian_Uint32 (word_of_nat (length p + 8)) @ p)
             [''icp4'', ''icp5'', ''icp6'', ''ic07'', ''ic08'', ''ic09'', ''ic10'',
              ''ic11'', ''ic12'', ''ic13'', ''ic14''] payloads)"
    unfolding buf icns_chunks StandardIconTypes_codes
    unfolding four_char_codes [OF four] ..
  have magic: "take 4 buffer = [105, 99, 110, 115]"
    unfolding buf by simp
  have "take 4 (drop 4 buffer)
      = BigEndian_Uint32 (word_of_nat (8 + sum_list (map (\<lambda>p. length p + 8) payloads)))"
    unfolding buf by (simp add: length_BigEndian_Uint32)
  then have total: "BigEndian_decode (take 4 (drop 4 buffer))
         = (8 + sum_list (map (\<lambda>p. length p + 8) payloads)) mod 2 ^ 32"
    by (simp only: BigEndian_decode_Uint32 unat_word_of_nat_32)
  have blen: "length buffer = 8 + sum_list (map (\<lambda>p. length p + 8) payloads)"
    unfolding buf using length_concat_icns [OF len]
    by (simp add: length_BigEndian_Uint32)
  show ?thesis
    by (rule exI [of _ payloads]) (intro conjI ok' plen shape magic total blen)
qed

text \<open>The theorem at the stub rasterizer: the images have 16, 32, ..., 512 bytes, 2896 in
  all, so the buffer has \<open>8 + 2896 + 11 * 8 = 2992\<close> bytes and says so in its header.\<close>

theorem CreateIcns_buffer_layout_witness:
  "\<exists>buffer. CreateIcns_buffer stub_SvgToPng StandardIconTypes ''icon.svg'' = Inr buffer
     \<and> take 4 buffer = [105, 99, 110, 115]
     \<and> BigEndian_decode (take 4 (drop 4 buffer)) = 2992
     \<and> length buffer = 2992"
proof -
  let ?ps = "map (\<lambda>t. replicate (nat (Size t)) (0::byte)) StandardIconTypes"
  let ?B = "map of_char ''icns''
          @ BigEndian_Uint32 (word_of_nat (8 + sum_list (map (\<lambda>p. length p + 8) ?ps)))
          @ concat (map (write_IconEntry []) (map2 icns_entry_for StandardIconTypes ?ps))"
  have b0: "CreateIcns_buffer stub_SvgToPng StandardIconTypes ''icon.svg'' = Inr ?B"
    by (rule CreateIcns_buffer_ok [of stub_SvgToPng "''icon.svg''" StandardIconTypes ?ps,
          OF stub_icns_payloads])
  from CreateIcns_buffer_layout [of stub_SvgToPng "''icon.svg''" ?B, OF b0]
  obtain payloads
    where ok: "map (stub_SvgToPng ''icon.svg'') [16, 32, 64, 128, 256, 512, 1024, 32, 64, 256, 512]
         = map Inr payloads"
      and magic: "take 4 ?B = [105, 99, 110, 115]"
      and total: "BigEndian_decode (take 4 (drop 4 ?B))
         = (8 + sum_list (map (\<lambda>p. length p + 8) payloads)) mod 2 ^ 32"
      and blen: "length ?B = 8 + sum_list (map (\<lambda>p. length p + 8) payloads)"
    by (elim exE conjE)
  have "map Inr payloads = (map Inr (map (\<lambda>n. replicate n (0::byte))
      [16, 32, 64, 128, 256, 512, 1024, 32, 64, 256, 512]) :: (string + byte list) list)"
    unfolding ok [symmetric] by (simp add: stub_SvgToPng_def)
  then have "payloads = map (\<lambda>n. replicate n (0::byte))
      [16, 32, 64, 128, 256, 512, 1024, 32, 64, 256, 512]"
    by (simp only: inj_map_eq_map [OF inj_Inr])
  then have sum: "8 + sum_list (map (\<lambda>p. length p + 8) payloads) = 2992"
    by simp
  have t: "BigEndian_decode (take 4 (drop 4 ?B)) = 2992"
    unfolding total sum by simp
  have l: "length ?B = 2992"
    unfolding blen sum ..
  show ?thesis
    by (rule exI [of _ ?B]) (intro conjI b0 magic t l)
qed

section \<open>The encoders as functions of the rasterizer's outputs\<close>

lemma ico_imageData_cong:
  "\<forall>s\<in>set sizes. SvgToPng svgPath s = SvgToPng' svgPath' s \<Longrightarrow>
   ico_imageData SvgToPng svgPath sizes acc = ico_imageData SvgToPng' svgPath' sizes acc"
  by (induction sizes arbitrary: acc) (simp_all split: sum.splits)

lemma icns_entries_cong:
  "\<forall>t\<in>set types. SvgToPng svgPath (Size t) = SvgToPng' svgPath' (Size t) \<Longrightarrow>
   icns_entries SvgToPng svgPath types acc = icns_entries SvgToPng' svgPath' types acc"
  by (induction types arbitrary: acc) (simp_all split: sum.splits)

lemma CreateIco_rerun:
  "CreateIco R mem_WriteFile sizes svgPath outputPath
     (snd (CreateIco R mem_WriteFile sizes svgPath outputPath fs))
   = CreateIco R mem_WriteFile sizes svgPath outputPath fs"
  by (cases "CreateIco_buffer R sizes svgPath") (simp_all add: CreateIco_def mem_WriteFile_def)

lemma CreateIcns_rerun:
  "CreateIcns R mem_WriteFile types svgPath outputPath
     (snd (CreateIcns R mem_WriteFile types svgPath outputPath fs))
   = CreateIcns R mem_WriteFile types svgPath outputPath fs"
  by (cases "CreateIcns_buffer R types svgPath") (simp_all add: CreateIcns_def mem_WriteFile_def)

text \<open>C8. The buffer of \<open>CreateIco\<close> (of \<open>CreateIcns\<close>) is a function of what the rasterizer
  returns for the sizes of the list (of the table): two runs in which the rasterizer returns
  the same results for these sizes build byte-identical buffers, or fail alike. In particular
  a second run on the same source with the same rasterizer, writing through a file system
  that stores what it is given, leaves the result and the file system of the first run
  unchanged.\<close>

theorem encoders_deterministic:
  "((\<forall>s\<in>set sizes. SvgToPng svgPath s = SvgToPng' svgPath' s) \<longrightarrow>
      CreateIco_buffer SvgToPng sizes svgPath = CreateIco_buffer SvgToPng' sizes svgPath')
   \<and> ((\<forall>t\<in>set types. SvgToPng svgPath (Size t) = SvgToPng' svgPath' (Size t)) \<longrightarrow>
      CreateIcns_buffer SvgToPng types svgPath = CreateIcns_buffer SvgToPng' types svgPath')
   \<and> CreateIco R mem_WriteFile sizes svgPath outputPath
        (snd (CreateIco R mem_WriteFile sizes svgPath outputPath fs))
      = CreateIco R mem_WriteFile sizes svgPath outputPath fs
   \<and> CreateIcns R mem_WriteFile types svgPath outputPath
        (snd (CreateIcns R mem_WriteFile types svgPath outputPath fs))
      = CreateIcns R mem_WriteFile types svgPath outputPath fs"
proof (intro conjI impI)
  assume "\<forall>s\<in>set sizes. SvgToPng svgPath s = SvgToPng' svgPath' s"
  then have "ico_imageData SvgToPng svgPath sizes [] = ico_imageData SvgToPng' svgPath' sizes []"
    by (rule ico_imageData_cong)
  then show "CreateIco_buffer SvgToPng sizes svgPath = CreateIco_buffer SvgToPng' sizes svgPath'"
    by (simp add: CreateIco_buffer_def CreateIco_layout_def)
next
  assume "\<forall>t\<in>set types. SvgToPng svgPath (Size t) = SvgToPng' svgPath' (Size t)"
  then have "icns_entries SvgToPng svgPath types [] = icns_entries SvgToPng' svgPath' types []"
    by (rule icns_entries_cong)
  then show "CreateIcns_buffer SvgToPng types svgPath = CreateIcns_buffer SvgToPng' types svgPath'"
    by (simp add: CreateIcns_buffer_def)
next
  show "CreateIco R mem_WriteFile sizes svgPath outputPath
        (snd (CreateIco R mem_WriteFile sizes svgPath outputPath fs))
      = CreateIco R mem_WriteFile sizes svgPath outputPath fs"
    by (rule CreateIco_rerun)
next
  show "CreateIcns R mem_WriteFile types svgPath outputPath
        (snd (CreateIcns R mem_WriteFile types svgPath outputPath fs))
      = CreateIcns R mem_WriteFile types svgPath outputPath fs"
    by (rule CreateIcns_rerun)
qed

text \<open>The theorem at two rasterizers that differ only at 1000 pixels, a size in neither
  list: the buffers are the same.\<close>

theorem encoders_deterministic_witness:
  "stub_SvgToPng ''a.svg'' 1000 \<noteq> failing_SvgToPng 1000 ''b.svg'' 1000
   \<and> CreateIco_buffer stub_SvgToPng IconSizes ''a.svg''
       = CreateIco_buffer (failing_SvgToPng 1000) IconSizes ''b.svg''
   \<and> CreateIcns_buffer stub_SvgToPng StandardIconTypes ''a.svg''
       = CreateIcns_buffer (failing_SvgToPng 1000) StandardIconTypes ''b.svg''"
proof -
  have d: "stub_SvgToPng ''a.svg'' 1000 \<noteq> failing_SvgToPng 1000 ''b.svg'' 1000"
    by (simp add: stub_SvgToPng_def failing_SvgToPng_def)
  have h1: "\<forall>s\<in>set IconSizes. stub_SvgToPng ''a.svg'' s = failing_SvgToPng 1000 ''b.svg'' s"
    by (simp add: IconSizes_def stub_SvgToPng_def failing_SvgToPng_def)
  have h2: "\<forall>t\<in>set StandardIconTypes.
      stub_SvgToPng ''a.svg'' (Size t) = failing_SvgToPng 1000 ''b.svg'' (Size t)"
    by (simp add: StandardIconTypes_def stub_SvgToPng_def failing_SvgToPng_def)
  note th = encoders_deterministic [of IconSizes stub_SvgToPng "''a.svg''"
      "failing_SvgToPng 1000" "''b.svg''" StandardIconTypes]
  from th [THEN conjunct1, THEN mp, OF h1]
  have a: "CreateIco_buffer stub_SvgToPng IconSizes ''a.svg''
       = CreateIco_buffer (failing_SvgToPng 1000) IconSizes ''b.svg''" .
  from th [THEN conjunct2, THEN conjunct1, THEN mp, OF h2]
  have b: "CreateIcns_buffer stub_SvgToPng StandardIconTypes ''a.svg''
       = CreateIcns_buffer (failing_SvgToPng 1000) StandardIconTypes ''b.svg''" .
  from d a b show ?thesis by (intro conjI)
qed

section \<open>Sizes of the buffers\<close>

lemma length_ico_serialize:
  "length (ico_serialize count entries imageData)
     = 6 + 16 * length entries + sum_list (map length imageData)"
  unfolding ico_serialize_eq length_append length_concat_entries
  by (simp add: LittleEndian_Uint16_def length_concat)

lemma ImageOffset_ico_entry_for: "ImageOffset (ico_entry_for s p off) = off"
  and BytesInRes_ico_entry_for: "BytesInRes (ico_entry_for s p off) = word_of_nat (length p)"
  by (simp_all add: ico_entry_for_def)

text \<open>C10. The buffer \<open>CreateIco\<close> serializes has exactly
  \<open>6 + 16 * count +\<close> the sum of all payload lengths bytes, and when the list is not empty
  the last entry's \<open>ImageOffset\<close> plus its \<open>BytesInRes\<close>, added as \<open>uint32\<close>, is that length
  modulo \<open>2^32\<close>. The buffer \<open>CreateIcns\<close> serializes has exactly 8 + the sum of all (payload
  length + 8) bytes, and its big-endian total-size field holds that length modulo \<open>2^32\<close>.
  For buffers shorter than \<open>2^32\<close> bytes both agree exactly with the buffer's length.\<close>

theorem buffers_self_consistent:
  assumes ico: "map (SvgToPng svgPath) sizes = map Inr payloads"
    and icns: "map (\<lambda>t. SvgToPng' svgPath' (Size t)) types = map Inr payloads'"
  shows "(\<exists>entries buffer. CreateIco_layout SvgToPng sizes svgPath = Inr (payloads, entries)
       \<and> CreateIco_buffer SvgToPng sizes svgPath = Inr buffer
       \<and> length buffer = 6 + 16 * length sizes + sum_list (map length payloads)
       \<and> (sizes \<noteq> [] \<longrightarrow>
            unat (ImageOffset (last entries) + BytesInRes (last entries))
              = length buffer mod 2 ^ 32)
       \<and> (sizes \<noteq> [] \<and> length buffer < 2 ^ 32 \<longrightarrow>
            unat (ImageOffset (last entries)) + unat (BytesInRes (last entries))
              = length buffer))
   \<and> (\<exists>buffer. CreateIcns_buffer SvgToPng' types svgPath' = Inr buffer
       \<and> length buffer = 8 + sum_list (map (\<lambda>p. length p + 8) payloads')
       \<and> BigEndian_decode (take 4 (drop 4 buffer)) = length buffer mod 2 ^ 32
       \<and> (length buffer < 2 ^ 32 \<longrightarrow>
            BigEndian_decode (take 4 (drop 4 buffer)) = length buffer))"
proof (rule conjI)
  have len: "length sizes = length payloads"
    using ico by (metis length_map)
  from CreateIco_layout_fields [of SvgToPng svgPath sizes payloads, OF ico]
  obtain entries where lay: "CreateIco_layout SvgToPng sizes svgPath = Inr (payloads, entries)"
    and elen: "length entries = length sizes"
    and nth: "\<forall>k<length sizes. entries ! k = ico_entry_for (sizes ! k) (payloads ! k)
           (word_of_nat (6 + 16 * length sizes + sum_list (map length (take k payloads))))"
    by (elim exE conjE)
  define buffer where "buffer = ico_serialize (length sizes) entries payloads"
  define total where "total = 6 + 16 * length sizes + sum_list (map length payloads)"
  have buf: "CreateIco_buffer SvgToPng sizes svgPath = Inr buffer"
    unfolding CreateIco_buffer_def lay buffer_def by simp
  have blen: "length buffer = total"
    unfolding buffer_def total_def length_ico_serialize elen ..
  have lastw: "ImageOffset (last entries) + BytesInRes (last entries) = word_of_nat total"
    if ne: "sizes \<noteq> []"
  proof -
    define k where "k = length sizes - 1"
    have pos: "0 < length sizes" using ne by simp
    have k: "k < length sizes" and Sk: "Suc k = length payloads"
      using pos len by (simp_all add: k_def)
    have "entries \<noteq> []" using elen ne by auto
    then have l: "last entries = entries ! k"
      using elen by (simp add: last_conv_nth k_def)
    have t: "sum_list (map length (take k payloads)) + length (payloads ! k)
        = sum_list (map length payloads)"
      using sum_list_take_Suc [of k payloads] k len Sk by simp
    have e: "entries ! k = ico_entry_for (sizes ! k) (payloads ! k)
           (word_of_nat (6 + 16 * length sizes + sum_list (map length (take k payloads))))"
      using nth k by blast
    have "ImageOffset (entries ! k) + BytesInRes (entries ! k)
        = word_of_nat (6 + 16 * length sizes + (sum_list (map length (take k payloads))
            + length (payloads ! k)))"
      unfolding e by (simp add: ico_entry_for_def add.assoc)
    then show ?thesis
      unfolding l t total_def .
  qed
  have c1: "sizes \<noteq> [] \<longrightarrow>
            unat (ImageOffset (last entries) + BytesInRes (last entries))
              = length buffer mod 2 ^ 32"
  proof
    assume "sizes \<noteq> []"
    from lastw [OF this]
    show "unat (ImageOffset (last entries) + BytesInRes (last entries)) = length buffer mod 2 ^ 32"
      unfolding blen by (simp only: unat_word_of_nat_32)
  qed
  have c2: "sizes \<noteq> [] \<and> length buffer < 2 ^ 32 \<longrightarrow>
            unat (ImageOffset (last entries)) + unat (BytesInRes (last entries))
              = length buffer"
  proof
    assume a: "sizes \<noteq> [] \<and> length buffer < 2 ^ 32"
    then have ne: "sizes \<noteq> []" and small: "total < 2 ^ 32"
      unfolding blen by simp_all
    define x where "x = unat (ImageOffset (last entries))"
    define y where "y = unat (BytesInRes (last entries))"
    define k where "k = length sizes - 1"
    have pos: "0 < length sizes" using ne by simp
    have k: "k < length sizes" and Sk: "Suc k = length payloads"
      using pos len by (simp_all add: k_def)
    have "entries \<noteq> []" using elen ne by auto
    then have l: "last entries = entries ! k"
      using elen by (simp add: last_conv_nth k_def)
    have e: "entries ! k = ico_entry_for (sizes ! k) (payloads ! k)
           (word_of_nat (6 + 16 * length sizes + sum_list (map length (take k payloads))))"
      using nth k by blast
    have t: "sum_list (map length (take k payloads)) + length (payloads ! k)
        = sum_list (map length payloads)"
      using sum_list_take_Suc [of k payloads] k len Sk by simp
    have xo: "x = (6 + 16 * length sizes + sum_list (map length (take k payloads))) mod 2 ^ 32"
      unfolding x_def l e ImageOffset_ico_entry_for by (rule unat_word_of_nat_32)
    have yo: "y = length (payloads ! k) mod 2 ^ 32"
      unfolding y_def l e BytesInRes_ico_entry_for by (rule unat_word_of_nat_32)
    have "6 + 16 * length sizes + sum_list (map length (take k payloads)) < 2 ^ 32"
      "length (payloads ! k) < 2 ^ 32"
      using small t unfolding total_def by linarith+
    then have "x = 6 + 16 * length sizes + sum_list (map length (take k payloads))"
      "y = length (payloads ! k)"
      unfolding xo yo by simp_all
    then have "x + y = total"
      unfolding total_def using t by linarith
    then show "unat (ImageOffset (last entries)) + unat (BytesInRes (last entries))
              = length buffer"
      unfolding blen x_def y_def .
  qed
  show "\<exists>entries buffer. CreateIco_layout SvgToPng sizes svgPath = Inr (payloads, entries)
       \<and> CreateIco_buffer SvgToPng sizes svgPath = Inr buffer
       \<and> length buffer = 6 + 16 * length sizes + sum_list (map length payloads)
       \<and> (sizes \<noteq> [] \<longrightarrow>
            unat (ImageOffset (last entries) + BytesInRes (last entries))
              = length buffer mod 2 ^ 32)
       \<and> (sizes \<noteq> [] \<and> length buffer < 2 ^ 32 \<longrightarrow>
            unat (ImageOffset (last entries)) + unat (BytesInRes (last entries))
              = length buffer)"
    by (rule exI [of _ entries], rule exI [of _ buffer])
      (intro conjI lay buf blen [unfolded total_def] c1 c2)
next
  define total where "total = 8 + sum_list (map (\<lambda>p. length p + 8) payloads')"
  define buffer where "buffer = map of_char ''icns''
          @ BigEndian_Uint32 (word_of_nat total)
          @ concat (map (write_IconEntry []) (map2 icns_entry_for types payloads'))"
  have len: "length types = length payloads'"
    using icns by (metis length_map)
  have buf: "CreateIcns_buffer SvgToPng' types svgPath' = Inr buffer"
    unfolding buffer_def total_def
    by (rule CreateIcns_buffer_ok [of SvgToPng' svgPath' types payloads', OF icns])
  have blen: "length buffer = total"
    unfolding buffer_def using length_concat_icns [OF len]
    by (simp add: length_BigEndian_Uint32 total_def)
  have "take 4 (drop 4 buffer) = BigEndian_Uint32 (word_of_nat total)"
    unfolding buffer_def by (simp add: length_BigEndian_Uint32)
  then have field: "BigEndian_decode (take 4 (drop 4 buffer)) = length buffer mod 2 ^ 32"
    unfolding blen by (simp only: BigEndian_decode_Uint32 unat_word_of_nat_32)
  have exact: "length buffer < 2 ^ 32 \<longrightarrow>
            BigEndian_decode (take 4 (drop 4 buffer)) = length buffer"
    unfolding field by simp
  show "\<exists>buffer. CreateIcns_buffer SvgToPng' types svgPath' = Inr buffer
       \<and> length buffer = 8 + sum_list (map (\<lambda>p. length p + 8) payloads')
       \<and> BigEndian_decode (take 4 (drop 4 buffer)) = length buffer mod 2 ^ 32
       \<and> (length buffer < 2 ^ 32 \<longrightarrow>
            BigEndian_decode (take 4 (drop 4 buffer)) = length buffer)"
    by (rule exI [of _ buffer]) (intro conjI buf blen [unfolded total_def] field exact)
qed

text \<open>The theorem at the stub rasterizer: the ICO buffer has \<open>118 + 568 = 686\<close> bytes, which is
  where the last image ends, and the ICNS buffer has 2992 bytes and says so in its header.\<close>

theorem buffers_self_consistent_witness:
  "(\<exists>entries buffer. CreateIco_buffer stub_SvgToPng IconSizes ''icon.svg'' = Inr buffer
       \<and> CreateIco_layout stub_SvgToPng IconSizes ''icon.svg''
            = Inr (map (\<lambda>s. replicate (nat s) 0) IconSizes, entries)
       \<and> length buffer = 686
       \<and> unat (ImageOffset (last entries)) + unat (BytesInRes (last entries)) = 686)
   \<and> (\<exists>buffer. CreateIcns_buffer stub_SvgToPng StandardIconTypes ''icon.svg'' = Inr buffer
       \<and> length buffer = 2992
       \<and> BigEndian_decode (take 4 (drop 4 buffer)) = 2992)"
proof -
  let ?ps = "map (\<lambda>s. replicate (nat s) (0::byte)) IconSizes"
  let ?ps' = "map (\<lambda>t. replicate (nat (Size t)) (0::byte)) StandardIconTypes"
  have ne: "IconSizes \<noteq> []" by (simp add: IconSizes_def)
  have t1: "6 + 16 * length IconSizes + sum_list (map length ?ps) = 686"
    by (simp add: IconSizes_def)
  have t2: "8 + sum_list (map (\<lambda>p. length p + 8) ?ps') = 2992"
    by (simp add: StandardIconTypes_def)
  note th = buffers_self_consistent [of stub_SvgToPng "''icon.svg''" IconSizes ?ps
      stub_SvgToPng "''icon.svg''" StandardIconTypes ?ps', OF stub_payloads stub_icns_payloads]
  from th [THEN conjunct1]
  obtain entries buffer
    where lay: "CreateIco_layout stub_SvgToPng IconSizes ''icon.svg'' = Inr (?ps, entries)"
      and buf: "CreateIco_buffer stub_SvgToPng IconSizes ''icon.svg'' = Inr buffer"
      and blen: "length buffer = 6 + 16 * length IconSizes + sum_list (map length ?ps)"
      and imp: "IconSizes \<noteq> [] \<and> length buffer < 2 ^ 32 \<longrightarrow>
            unat (ImageOffset (last entries)) + unat (BytesInRes (last entries)) = length buffer"
    by (elim exE conjE)
  have l686: "length buffer = 686"
    unfolding blen t1 ..
  have "IconSizes \<noteq> [] \<and> length buffer < 2 ^ 32"
    using ne l686 by simp
  with imp have "unat (ImageOffset (last entries)) + unat (BytesInRes (last entries)) = length buffer"
    by (rule mp)
  then have e686: "unat (ImageOffset (last entries)) + unat (BytesInRes (last entries)) = 686"
    unfolding l686 .
  have ico: "\<exists>entries buffer. CreateIco_buffer stub_SvgToPng IconSizes ''icon.svg'' = Inr buffer
       \<and> CreateIco_layout stub_SvgToPng IconSizes ''icon.svg'' = Inr (?ps, entries)
       \<and> length buffer = 686
       \<and> unat (ImageOffset (last entries)) + unat (BytesInRes (last entries)) = 686"
    by (rule exI [of _ entries], rule exI [of _ buffer]) (intro conjI buf lay l686 e686)
  from th [THEN conjunct2]
  obtain buffer'
    where buf': "CreateIcns_buffer stub_SvgToPng StandardIconTypes ''icon.svg'' = Inr buffer'"
      and blen': "length buffer' = 8 + sum_list (map (\<lambda>p. length p + 8) ?ps')"
      and imp': "length buffer' < 2 ^ 32 \<longrightarrow>
            BigEndian_decode (take 4 (drop 4 buffer')) = length buffer'"
    by (elim exE conjE)
  have l2992: "length buffer' = 2992"
    unfolding blen' t2 ..
  have "length buffer' < 2 ^ 32"
    unfolding l2992 by simp
  with imp' have "BigEndian_decode (take 4 (drop 4 buffer')) = length buffer'"
    by (rule mp)
  then have d2992: "BigEndian_decode (take 4 (drop 4 buffer')) = 2992"
    unfolding l2992 .
  have icns: "\<exists>buffer. CreateIcns_buffer stub_SvgToPng StandardIconTypes ''icon.svg'' = Inr buffer
       \<and> length buffer = 2992
       \<and> BigEndian_decode (take 4 (drop 4 buffer)) = 2992"
    by (rule exI [of _ buffer']) (intro conjI buf' l2992 d2992)
  from ico icns show ?thesis by (rule conjI)
qed

text \<open>Without the reduction the statement fails: with images of \<open>2^32\<close> bytes the ICNS buffer
  has 47244640352 bytes and its total-size field says 96.\<close>

theorem buffers_self_consistent_counterexample:
  "\<not> isl (CreateIcns_buffer huge_SvgToPng StandardIconTypes ''icon.svg'')
   \<and> length (projr (CreateIcns_buffer huge_SvgToPng StandardIconTypes ''icon.svg''))
       = 47244640352
   \<and> BigEndian_decode (take 4 (drop 4
         (projr (CreateIcns_buffer huge_SvgToPng StandardIconTypes ''icon.svg'')))) = 96"
proof -
  let ?ps = "replicate (length StandardIconTypes) huge_png"
  have n: "length StandardIconTypes = 11" by (simp add: StandardIconTypes_def)
  have t: "8 + sum_list (map (\<lambda>p. length p + 8) ?ps) = 47244640352"
    unfolding n by (simp add: sum_list_replicate length_huge_png)
  have b: "CreateIcns_buffer huge_SvgToPng StandardIconTypes ''icon.svg''
      = Inr (map of_char ''icns'' @ BigEndian_Uint32 (word_of_nat 47244640352)
          @ concat (map (write_IconEntry []) (map2 icns_entry_for StandardIconTypes ?ps)))"
    using CreateIcns_buffer_ok [of huge_SvgToPng "''icon.svg''" StandardIconTypes ?ps,
        OF huge_icns_payloads]
    unfolding t .
  have l: "length (concat (map (write_IconEntry []) (map2 icns_entry_for StandardIconTypes ?ps)))
      = 47244640344"
    using length_concat_icns [of StandardIconTypes ?ps] t by simp
  have f: "BigEndian_decode (BigEndian_Uint32 (word_of_nat 47244640352)) = 96"
    unfolding BigEndian_decode_Uint32 unat_word_of_nat_32 by simp
  show ?thesis
    unfolding b using l f by (simp add: length_BigEndian_Uint32)
qed

section \<open>Round trip through the readers\<close>

lemma those_map_Some: "those (map Some xs) = Some xs"
  by (induction xs) simp_all

lemma drop_concat_take:
  "i \<le> length ps \<Longrightarrow>
   drop (sum_list (map length (take i ps))) (concat ps) = concat (drop i ps)"
proof (induction ps arbitrary: i)
  case Nil
  then show ?case by simp
next
  case (Cons p ps)
  then show ?case by (cases i) simp_all
qed

lemma take_payload:
  assumes "i < length ps"
  shows "take (length (ps ! i)) (drop (sum_list (map length (take i ps))) (concat ps)) = ps ! i"
proof -
  have "drop i ps = ps ! i # drop (Suc i) ps"
    using assms by (simp add: Cons_nth_drop_Suc)
  then show ?thesis
    using assms by (simp add: drop_concat_take)
qed

lemma read_icns_entries_concat:
  assumes "length types = length payloads"
    and "\<forall>p\<in>set payloads. length p + 8 < 2 ^ 32"
  shows "read_icns_entries (concat (map (write_IconEntry []) (map2 icns_entry_for types payloads)))
     = Some (map2 (\<lambda>t p. (copy_OSType (IconType.OSType t), p)) types payloads)"
  using assms
proof (induction types payloads rule: list_induct2)
  case Nil
  show ?case by (simp add: read_icns_entries.simps)
next
  case (Cons t types p payloads)
  define rest where
    "rest = concat (map (write_IconEntry []) (map2 icns_entry_for types payloads))"
  define bs where "bs = copy_OSType (IconType.OSType t)
      @ BigEndian_Uint32 (word_of_nat (length p + 8)) @ p @ rest"
  have small: "length p + 8 < 2 ^ 32" using Cons.prems by simp
  have bs: "concat (map (write_IconEntry []) (map2 icns_entry_for (t # types) (p # payloads))) = bs"
    unfolding bs_def rest_def by (simp add: write_icns_entry_for)
  have "take 4 (drop 4 bs) = BigEndian_Uint32 (word_of_nat (length p + 8))"
    unfolding bs_def by (simp add: length_copy_OSType length_BigEndian_Uint32)
  then have n: "icns_entry_length bs = length p + 8"
    unfolding icns_entry_length_def using small
    by (simp only: BigEndian_decode_Uint32 unat_word_of_nat_32 mod_less)
  have lbs: "length bs = length p + 8 + length rest"
    unfolding bs_def by (simp add: length_copy_OSType length_BigEndian_Uint32)
  have ne: "bs \<noteq> []" using lbs by auto
  have d: "drop (length p + 8) bs = rest"
    unfolding bs_def by (simp add: length_copy_OSType length_BigEndian_Uint32)
  have c: "take 4 bs = copy_OSType (IconType.OSType t)"
    unfolding bs_def by (simp add: length_copy_OSType)
  have pl: "take (length p) (drop 8 bs) = p"
    unfolding bs_def by (simp add: length_copy_OSType length_BigEndian_Uint32)
  have ih: "read_icns_entries rest
      = Some (map2 (\<lambda>t p. (copy_OSType (IconType.OSType t), p)) types payloads)"
    unfolding rest_def using Cons.IH Cons.prems by simp
  show ?case
    unfolding bs
    by (subst read_icns_entries.simps) (simp add: n lbs ne d c pl ih)
qed

lemma read_dimension_IconSize:
  "s \<in> {16, 24, 32, 48, 64, 128, 256} \<Longrightarrow>
   read_dimension (if s = 256 then 0 else word_of_int s) = nat s"
  by (auto simp: read_dimension_def)

lemma map_index_zip:
  "length xs = length ys \<Longrightarrow>
   map (\<lambda>i. f (xs ! i) (ys ! i)) [0 ..< length xs] = map2 f xs ys"
  by (rule nth_equalityI) simp_all

text \<open>What the reader makes of one directory entry of a buffer built for the default
  sizes: the size, and the bytes that the entry's two \<open>uint32\<close> fields delimit.\<close>

lemma read_ico_entry_gen:
  assumes len: "length payloads = length IconSizes"
    and i: "i < length IconSizes"
  shows "read_ico_entry (ico_serialize (length IconSizes)
           (ico_directory IconSizes payloads (word_of_nat (6 + 16 * length IconSizes))) payloads) i
     = Some (nat (IconSizes ! i), nat (IconSizes ! i),
         take (length (payloads ! i) mod 2 ^ 32)
           (drop ((6 + 16 * length IconSizes + sum_list (map length (take i payloads))) mod 2 ^ 32)
             (ico_serialize (length IconSizes)
               (ico_directory IconSizes payloads (word_of_nat (6 + 16 * length IconSizes)))
               payloads)))"
proof -
  define n where "n = length IconSizes"
  define entries where "entries = ico_directory IconSizes payloads (word_of_nat (6 + 16 * n))"
  define fl where "fl = ico_serialize n entries payloads"
  define E where "E = concat (map (write_ICONDIREntry []) entries)"
  define P where "P = concat payloads"
  define off where "off = 6 + 16 * n + sum_list (map length (take i payloads))"
  define e where "e = ico_entry_for (IconSizes ! i) (payloads ! i) (word_of_nat off)"
  have i': "i < n" and len': "length payloads = n" using i len by (simp_all add: n_def)
  have elen: "length entries = n"
    unfolding entries_def using len by (simp add: length_ico_directory n_def)
  have nth: "entries ! i = e"
    unfolding entries_def e_def off_def using i len
    by (simp add: ico_directory_nth n_def)
  have H: "LittleEndian_Uint16 0 @ LittleEndian_Uint16 1 @ LittleEndian_Uint16 (word_of_nat n)
      = [0, 0, 1, 0] @ LittleEndian_Uint16 (word_of_nat n)"
    by (simp add: LittleEndian_Uint16_def)
  have lenH: "length ([0, 0, 1, 0] @ LittleEndian_Uint16 (word_of_nat n) :: byte list) = 6"
    by (simp add: LittleEndian_Uint16_def)
  have shape: "fl = ([0, 0, 1, 0] @ LittleEndian_Uint16 (word_of_nat n)) @ E @ P"
    unfolding fl_def ico_serialize_eq E_def P_def H [symmetric] by simp
  have lenE: "length E = 16 * n"
    unfolding E_def length_concat_entries elen ..
  have lenP: "length P = sum_list (map length payloads)"
    unfolding P_def by (simp add: length_concat)
  have lfl: "length fl = 6 + 16 * n + sum_list (map length payloads)"
    unfolding shape by (simp add: lenE lenP LittleEndian_Uint16_def)
  have d6: "drop 6 fl = E @ P"
    unfolding shape by (simp add: LittleEndian_Uint16_def)
  have chunk: "take 16 (drop (6 + 16 * i) fl) = write_ICONDIREntry [] e"
  proof -
    have d: "drop (6 + 16 * i) fl = drop (16 * i) (drop 6 fl)"
      by (simp add: add.commute)
    show ?thesis
      unfolding d d6 E_def nth [symmetric] by (rule entry_chunk) (simp add: i' elen)
  qed
  have w: "write_ICONDIREntry [] e
      = [Width e, Height e, 0, 0, 1, 0, 32, 0]
          @ LittleEndian_Uint32 (BytesInRes e) @ LittleEndian_Uint32 (ImageOffset e)"
    unfolding e_def by (rule write_ico_entry_for)
  have le_off: "off + length (payloads ! i) \<le> 6 + 16 * n + sum_list (map length payloads)"
  proof -
    have "sum_list (map length (take (Suc i) payloads)) \<le> sum_list (map length payloads)"
      by (rule sum_list_take_le)
    then show ?thesis
      unfolding off_def using sum_list_take_Suc [of i payloads] i' len' by simp
  qed
  have b: "LittleEndian_decode (take 4 (drop 8 (write_ICONDIREntry [] e)))
      = length (payloads ! i) mod 2 ^ 32"
    unfolding w
    by (simp add: length_LittleEndian_Uint32 LittleEndian_decode_Uint32
        BytesInRes_ico_entry_for e_def unat_word_of_nat_32)
  have o: "LittleEndian_decode (take 4 (drop 12 (write_ICONDIREntry [] e))) = off mod 2 ^ 32"
    unfolding w
    by (simp add: length_LittleEndian_Uint32 LittleEndian_decode_Uint32
        ImageOffset_ico_entry_for e_def unat_word_of_nat_32)
  have bound: "off mod 2 ^ 32 + length (payloads ! i) mod 2 ^ 32 \<le> length fl"
  proof -
    have "off mod 2 ^ 32 \<le> off" "length (payloads ! i) mod 2 ^ 32 \<le> length (payloads ! i)"
      by (rule mod_less_eq_dividend)+
    with le_off show ?thesis unfolding lfl by linarith
  qed
  have m: "IconSizes ! i \<in> {16, 24, 32, 48, 64, 128, 256}"
    using i by (rule IconSizes_nth_cases)
  have wd: "read_dimension (write_ICONDIREntry [] e ! 0) = nat (IconSizes ! i)"
    and hd: "read_dimension (write_ICONDIREntry [] e ! 1) = nat (IconSizes ! i)"
    unfolding w using read_dimension_IconSize [OF m] by (simp_all add: e_def ico_entry_for_def)
  have l16: "length (write_ICONDIREntry [] e) = 16"
    by (rule length_write_ICONDIREntry)
  have "read_ico_entry fl i = Some (nat (IconSizes ! i), nat (IconSizes ! i),
      take (length (payloads ! i) mod 2 ^ 32) (drop (off mod 2 ^ 32) fl))"
    unfolding read_ico_entry_def chunk Let_def b o
    using l16 bound wd hd by simp
  then show ?thesis
    unfolding fl_def entries_def off_def n_def .
qed

lemma ico_payload_at:
  assumes len: "length payloads = length IconSizes" and i: "i < length IconSizes"
  shows "take (length (payloads ! i))
           (drop (6 + 16 * length IconSizes + sum_list (map length (take i payloads)))
             (ico_serialize (length IconSizes)
               (ico_directory IconSizes payloads (word_of_nat (6 + 16 * length IconSizes)))
               payloads))
     = payloads ! i"
proof -
  define entries where
    "entries = ico_directory IconSizes payloads (word_of_nat (6 + 16 * length IconSizes))"
  have elen: "length entries = length IconSizes"
    unfolding entries_def using len by (simp add: length_ico_directory)
  define HE where "HE = LittleEndian_Uint16 0 @ LittleEndian_Uint16 1
      @ LittleEndian_Uint16 (word_of_nat (length IconSizes))
      @ concat (map (write_ICONDIREntry []) entries)"
  have l: "length HE = 6 + 16 * length IconSizes"
    unfolding HE_def length_append length_concat_entries elen
    by (simp add: LittleEndian_Uint16_def)
  have f: "ico_serialize (length IconSizes) entries payloads = HE @ concat payloads"
    unfolding ico_serialize_eq HE_def by simp
  have "drop (length HE + sum_list (map length (take i payloads))) (HE @ concat payloads)
      = drop (sum_list (map length (take i payloads))) (concat payloads)"
    by simp
  then have "drop (6 + 16 * length IconSizes + sum_list (map length (take i payloads)))
          (ico_serialize (length IconSizes) entries payloads)
      = drop (sum_list (map length (take i payloads))) (concat payloads)"
    unfolding f l .
  then show ?thesis
    unfolding entries_def using i len by (simp add: take_payload)
qed

lemma read_ico_gen:
  assumes len: "length payloads = length IconSizes"
  shows "read_ico (ico_serialize (length IconSizes)
           (ico_directory IconSizes payloads (word_of_nat (6 + 16 * length IconSizes))) payloads)
     = Some (map (\<lambda>i. (nat (IconSizes ! i), nat (IconSizes ! i),
         take (length (payloads ! i) mod 2 ^ 32)
           (drop ((6 + 16 * length IconSizes + sum_list (map length (take i payloads))) mod 2 ^ 32)
             (ico_serialize (length IconSizes)
               (ico_directory IconSizes payloads (word_of_nat (6 + 16 * length IconSizes)))
               payloads)))) [0 ..< length IconSizes])"
proof -
  define fl where "fl = ico_serialize (length IconSizes)
           (ico_directory IconSizes payloads (word_of_nat (6 + 16 * length IconSizes))) payloads"
  define g where "g = (\<lambda>i. (nat (IconSizes ! i), nat (IconSizes ! i),
         take (length (payloads ! i) mod 2 ^ 32)
           (drop ((6 + 16 * length IconSizes + sum_list (map length (take i payloads))) mod 2 ^ 32)
             fl)))"
  have n: "length IconSizes = 7" by (simp add: IconSizes_def)
  have shape: "fl = [0, 0, 1, 0, 7, 0] @
      concat (map (write_ICONDIREntry [])
        (ico_directory IconSizes payloads (word_of_nat (6 + 16 * length IconSizes))))
      @ concat payloads"
    unfolding fl_def ico_serialize_eq n by (simp add: LittleEndian_Uint16_def)
  have h: "\<not> (length fl < 6 \<or> take 4 fl \<noteq> [0, 0, 1, 0])"
    unfolding shape by simp
  have c: "LittleEndian_decode (take 2 (drop 4 fl)) = length IconSizes"
    unfolding shape n by simp
  have "map (read_ico_entry fl) [0 ..< length IconSizes] = map (\<lambda>i. Some (g i)) [0 ..< length IconSizes]"
    unfolding fl_def g_def using read_ico_entry_gen [OF len] by simp
  also have "\<dots> = map Some (map g [0 ..< length IconSizes])"
    by simp
  finally have "those (map (read_ico_entry fl) [0 ..< length IconSizes])
      = Some (map g [0 ..< length IconSizes])"
    by (simp only: those_map_Some)
  then have "read_ico fl = Some (map g [0 ..< length IconSizes])"
    unfolding read_ico_def c using h by simp
  then show ?thesis unfolding fl_def g_def .
qed

lemma read_ico_ok:
  assumes len: "length payloads = length IconSizes"
    and small: "6 + 16 * length IconSizes + sum_list (map length payloads) < 2 ^ 32"
  shows "read_ico (ico_serialize (length IconSizes)
           (ico_directory IconSizes payloads (word_of_nat (6 + 16 * length IconSizes))) payloads)
     = Some (map2 (\<lambda>s p. (nat s, nat s, p)) IconSizes payloads)"
proof -
  have "map (\<lambda>i. (nat (IconSizes ! i), nat (IconSizes ! i),
         take (length (payloads ! i) mod 2 ^ 32)
           (drop ((6 + 16 * length IconSizes + sum_list (map length (take i payloads))) mod 2 ^ 32)
             (ico_serialize (length IconSizes)
               (ico_directory IconSizes payloads (word_of_nat (6 + 16 * length IconSizes)))
               payloads)))) [0 ..< length IconSizes]
     = map (\<lambda>i. (nat (IconSizes ! i), nat (IconSizes ! i), payloads ! i)) [0 ..< length IconSizes]"
  proof (rule map_cong [OF refl])
    fix i assume "i \<in> set [0 ..< length IconSizes]"
    then have i: "i < length IconSizes" by simp
    have "sum_list (map length (take (Suc i) payloads)) \<le> sum_list (map length payloads)"
      by (rule sum_list_take_le)
    then have "6 + 16 * length IconSizes + sum_list (map length (take i payloads))
          + length (payloads ! i) < 2 ^ 32"
      using sum_list_take_Suc [of i payloads] i len small by simp
    then have so: "6 + 16 * length IconSizes + sum_list (map length (take i payloads)) < 2 ^ 32"
      and sl: "length (payloads ! i) < 2 ^ 32"
      by linarith+
    show "(nat (IconSizes ! i), nat (IconSizes ! i),
         take (length (payloads ! i) mod 2 ^ 32)
           (drop ((6 + 16 * length IconSizes + sum_list (map length (take i payloads))) mod 2 ^ 32)
             (ico_serialize (length IconSizes)
               (ico_directory IconSizes payloads (word_of_nat (6 + 16 * length IconSizes)))
               payloads)))
       = (nat (IconSizes ! i), nat (IconSizes ! i), payloads ! i)"
      unfolding mod_less [OF so] mod_less [OF sl] ico_payload_at [OF len i] ..
  qed
  also have "\<dots> = map2 (\<lambda>s p. (nat s, nat s, p)) IconSizes payloads"
    using len by (intro map_index_zip [of IconSizes payloads "\<lambda>s p. (nat s, nat s, p)"]) simp
  finally show ?thesis
    unfolding read_ico_gen [OF len] by simp
qed

lemma member_payload_small:
  assumes "8 + sum_list (map (\<lambda>p. length p + 8) payloads) < 2 ^ 32"
  shows "\<forall>p\<in>set payloads. length p + 8 < 2 ^ 32"
proof
  fix p assume "p \<in> set payloads"
  then have "length p + 8 \<in> set (map (\<lambda>p. length p + 8) payloads)" by simp
  then have "length p + 8 \<le> sum_list (map (\<lambda>p. length p + 8) payloads)"
    by (rule member_le_sum_list) simp
  with assms show "length p + 8 < 2 ^ 32" by linarith
qed

lemma four_char_codes_zip:
  "\<forall>t\<in>set types. length (IconType.OSType t) = 4 \<Longrightarrow>
   map2 (\<lambda>t p. (copy_OSType (IconType.OSType t), p)) types payloads
     = map2 (\<lambda>t p. (map of_char (IconType.OSType t), p)) types payloads"
proof (induction types arbitrary: payloads)
  case Nil
  then show ?case by simp
next
  case (Cons t types)
  then show ?case
    by (cases payloads) (simp_all add: copy_OSType_4)
qed

lemma StandardIconTypes_four: "\<forall>t\<in>set StandardIconTypes. length (IconType.OSType t) = 4"
  by (simp add: StandardIconTypes_def)

lemma read_icns_ok:
  assumes len: "length types = length payloads"
    and small: "8 + sum_list (map (\<lambda>p. length p + 8) payloads) < 2 ^ 32"
  shows "read_icns (map of_char ''icns''
          @ BigEndian_Uint32 (word_of_nat (8 + sum_list (map (\<lambda>p. length p + 8) payloads)))
          @ concat (map (write_IconEntry []) (map2 icns_entry_for types payloads)))
     = Some (map2 (\<lambda>t p. (copy_OSType (IconType.OSType t), p)) types payloads)"
proof -
  define total where "total = 8 + sum_list (map (\<lambda>p. length p + 8) payloads)"
  define C where "C = concat (map (write_IconEntry []) (map2 icns_entry_for types payloads))"
  define fl where "fl = map of_char ''icns'' @ BigEndian_Uint32 (word_of_nat total) @ C"
  have lenC: "length C = sum_list (map (\<lambda>p. length p + 8) payloads)"
    unfolding C_def by (rule length_concat_icns [OF len])
  have lfl: "length fl = total"
    unfolding fl_def total_def by (simp add: length_BigEndian_Uint32 lenC)
  have magic: "take 4 fl = map of_char ''icns''"
    unfolding fl_def by simp
  have "take 4 (drop 4 fl) = BigEndian_Uint32 (word_of_nat total)"
    unfolding fl_def by (simp add: length_BigEndian_Uint32)
  then have "BigEndian_decode (take 4 (drop 4 fl)) = total mod 2 ^ 32"
    by (simp only: BigEndian_decode_Uint32 unat_word_of_nat_32)
  also have "\<dots> = total"
    using small unfolding total_def by (rule mod_less)
  finally have field: "BigEndian_decode (take 4 (drop 4 fl)) = length fl"
    unfolding lfl .
  have d8: "drop 8 fl = C"
    unfolding fl_def by (simp add: length_BigEndian_Uint32)
  have l8: "\<not> length fl < 8"
    unfolding lfl total_def by simp
  have "read_icns fl = read_icns_entries C"
    unfolding read_icns_def d8 using l8 magic field by simp
  also have "\<dots> = Some (map2 (\<lambda>t p. (copy_OSType (IconType.OSType t), p)) types payloads)"
    unfolding C_def using len member_payload_small [OF small]
    by (rule read_icns_entries_concat)
  finally show ?thesis
    unfolding fl_def total_def C_def .
qed

text \<open>C9. Let the payloads be the rasterizer's results for the default size list
  (for the standard table), and let the container be shorter than \<open>2^32\<close> bytes. Then a
  reader of the ICO format, taking the dimension byte 0 for 256 and the two little-endian
  \<open>uint32\<close> fields of an entry for the length and the offset of its image, recovers from the
  buffer of \<open>CreateIco\<close> the 7 sizes and the 7 payloads, byte for byte and in order; and a
  reader of the ICNS format, scanning the entries by their big-endian lengths, recovers from
  the buffer of \<open>CreateIcns\<close> the 11 type codes and the 11 payloads, byte for byte and in
  order.\<close>

theorem round_trip:
  assumes ico: "map (SvgToPng svgPath) IconSizes = map Inr payloads"
    and small: "6 + 16 * length IconSizes + sum_list (map length payloads) < 2 ^ 32"
    and icns: "map (\<lambda>t. SvgToPng' svgPath' (Size t)) StandardIconTypes = map Inr payloads'"
    and small': "8 + sum_list (map (\<lambda>p. length p + 8) payloads') < 2 ^ 32"
  shows "(\<exists>buffer. CreateIco_buffer SvgToPng IconSizes svgPath = Inr buffer
            \<and> read_ico buffer = Some (map2 (\<lambda>s p. (nat s, nat s, p)) IconSizes payloads))
       \<and> (\<exists>buffer. CreateIcns_buffer SvgToPng' StandardIconTypes svgPath' = Inr buffer
            \<and> read_icns buffer
                = Some (map2 (\<lambda>t p. (map of_char (IconType.OSType t), p))
                    StandardIconTypes payloads'))"
proof (rule conjI)
  have len: "length payloads = length IconSizes"
    using ico by (metis length_map)
  show "\<exists>buffer. CreateIco_buffer SvgToPng IconSizes svgPath = Inr buffer
            \<and> read_ico buffer = Some (map2 (\<lambda>s p. (nat s, nat s, p)) IconSizes payloads)"
    by (rule exI [of _ "ico_serialize (length IconSizes)
           (ico_directory IconSizes payloads (word_of_nat (6 + 16 * length IconSizes))) payloads"])
      (intro conjI CreateIco_buffer_ok [of SvgToPng svgPath IconSizes payloads, OF ico]
        read_ico_ok [OF len small])
next
  have len: "length StandardIconTypes = length payloads'"
    using icns by (metis length_map)
  have r: "read_icns (map of_char ''icns''
          @ BigEndian_Uint32 (word_of_nat (8 + sum_list (map (\<lambda>p. length p + 8) payloads')))
          @ concat (map (write_IconEntry []) (map2 icns_entry_for StandardIconTypes payloads')))
     = Some (map2 (\<lambda>t p. (map of_char (IconType.OSType t), p)) StandardIconTypes payloads')"
    unfolding read_icns_ok [OF len small'] four_char_codes_zip [OF StandardIconTypes_four] ..
  show "\<exists>buffer. CreateIcns_buffer SvgToPng' StandardIconTypes svgPath' = Inr buffer
            \<and> read_icns buffer
                = Some (map2 (\<lambda>t p. (map of_char (IconType.OSType t), p))
                    StandardIconTypes payloads')"
    by (rule exI [of _ "map of_char ''icns''
          @ BigEndian_Uint32 (word_of_nat (8 + sum_list (map (\<lambda>p. length p + 8) payloads')))
          @ concat (map (write_IconEntry []) (map2 icns_entry_for StandardIconTypes payloads'))"])
      (intro conjI CreateIcns_buffer_ok [of SvgToPng' svgPath' StandardIconTypes payloads', OF icns] r)
qed

text \<open>The theorem at the stub rasterizer, whose images have as many bytes as the size says.\<close>

theorem round_trip_witness:
  "(\<exists>buffer. CreateIco_buffer stub_SvgToPng IconSizes ''icon.svg'' = Inr buffer
      \<and> read_ico buffer = Some [(16, 16, replicate 16 0), (24, 24, replicate 24 0),
           (32, 32, replicate 32 0), (48, 48, replicate 48 0), (64, 64, replicate 64 0),
           (128, 128, replicate 128 0), (256, 256, replicate 256 0)])
   \<and> (\<exists>buffer. CreateIcns_buffer stub_SvgToPng StandardIconTypes ''icon.svg'' = Inr buffer
      \<and> read_icns buffer
          = Some (map (\<lambda>t. (map of_char (IconType.OSType t), replicate (nat (Size t)) 0))
              StandardIconTypes))"
proof -
  let ?ps = "map (\<lambda>s. replicate (nat s) (0::byte)) IconSizes"
  let ?ps' = "map (\<lambda>t. replicate (nat (Size t)) (0::byte)) StandardIconTypes"
  have t1: "6 + 16 * length IconSizes + sum_list (map length ?ps) < 2 ^ 32"
    by (simp add: IconSizes_def)
  have t2: "8 + sum_list (map (\<lambda>p. length p + 8) ?ps') < 2 ^ 32"
    by (simp add: StandardIconTypes_def)
  have z1: "map2 (\<lambda>s p. (nat s, nat s, p)) IconSizes ?ps
      = [(16, 16, replicate 16 0), (24, 24, replicate 24 0),
           (32, 32, replicate 32 0), (48, 48, replicate 48 0), (64, 64, replicate 64 0),
           (128, 128, replicate 128 0), (256, 256, replicate 256 0)]"
    by (simp add: IconSizes_def)
  have z2: "map2 (\<lambda>t p. (map of_char (IconType.OSType t), p)) StandardIconTypes ?ps'
      = map (\<lambda>t. (map of_char (IconType.OSType t), replicate (nat (Size t)) (0::byte)))
          StandardIconTypes"
    by (simp add: zip_map2 zip_same_conv_map)
  from round_trip [of stub_SvgToPng "''icon.svg''" ?ps stub_SvgToPng "''icon.svg''" ?ps',
      OF stub_payloads t1 stub_icns_payloads t2]
  show ?thesis
    unfolding z1 z2 .
qed

text \<open>Beyond \<open>2^32\<close> bytes the round trip fails: from the ICO buffer built for images of
  \<open>2^32\<close> bytes the reader recovers 7 empty images.\<close>

theorem round_trip_counterexample:
  "ico_imageData huge_SvgToPng ''icon.svg'' IconSizes []
     = Inr [huge_png, huge_png, huge_png, huge_png, huge_png, huge_png, huge_png]
   \<and> length huge_png = 4294967296
   \<and> \<not> isl (CreateIco_buffer huge_SvgToPng IconSizes ''icon.svg'')
   \<and> read_ico (projr (CreateIco_buffer huge_SvgToPng IconSizes ''icon.svg''))
       = Some [(16, 16, []), (24, 24, []), (32, 32, []), (48, 48, []), (64, 64, []),
               (128, 128, []), (256, 256, [])]"
proof -
  let ?ps = "replicate (length IconSizes) huge_png"
  let ?B = "ico_serialize (length IconSizes)
           (ico_directory IconSizes ?ps (word_of_nat (6 + 16 * length IconSizes))) ?ps"
  have n: "length IconSizes = 7" by (simp add: IconSizes_def)
  have len: "length ?ps = length IconSizes" by simp
  have r7: "replicate 7 huge_png
      = [huge_png, huge_png, huge_png, huge_png, huge_png, huge_png, huge_png]"
    by (simp add: numeral_eq_Suc)
  have a: "ico_imageData huge_SvgToPng ''icon.svg'' IconSizes []
     = Inr [huge_png, huge_png, huge_png, huge_png, huge_png, huge_png, huge_png]"
    using ico_imageData_ok [of huge_SvgToPng "''icon.svg''" IconSizes ?ps "[]",
        OF huge_payloads]
    unfolding n r7 by simp
  have b: "CreateIco_buffer huge_SvgToPng IconSizes ''icon.svg'' = Inr ?B"
    by (rule CreateIco_buffer_ok [of huge_SvgToPng "''icon.svg''" IconSizes ?ps,
          OF huge_payloads])
  have "map (\<lambda>i. (nat (IconSizes ! i), nat (IconSizes ! i),
         take (length (?ps ! i) mod 2 ^ 32)
           (drop ((6 + 16 * length IconSizes + sum_list (map length (take i ?ps))) mod 2 ^ 32)
             ?B))) [0 ..< length IconSizes]
     = map (\<lambda>i. (nat (IconSizes ! i), nat (IconSizes ! i), [])) [0 ..< length IconSizes]"
  proof (rule map_cong [OF refl])
    fix i assume "i \<in> set [0 ..< length IconSizes]"
    then have "?ps ! i = huge_png" by simp
    then have "length (?ps ! i) mod 2 ^ 32 = 0"
      by (simp add: length_huge_png)
    then show "(nat (IconSizes ! i), nat (IconSizes ! i),
         take (length (?ps ! i) mod 2 ^ 32)
           (drop ((6 + 16 * length IconSizes + sum_list (map length (take i ?ps))) mod 2 ^ 32)
             ?B))
       = (nat (IconSizes ! i), nat (IconSizes ! i), [])"
      by simp
  qed
  also have "\<dots> = map (\<lambda>s. (nat s, nat s, [])) IconSizes"
    by (rule nth_equalityI) simp_all
  also have "\<dots> = [(16, 16, []), (24, 24, []), (32, 32, []), (48, 48, []), (64, 64, []),
               (128, 128, []), (256, 256, [])]"
    by (simp add: IconSizes_def)
  finally have r: "read_ico ?B = Some [(16, 16, []), (24, 24, []), (32, 32, []), (48, 48, []),
      (64, 64, []), (128, 128, []), (256, 256, [])]"
    unfolding read_ico_gen [OF len] by simp
  show ?thesis
    unfolding b using a r length_huge_png by simp
qed

end
